(* ===== verification/Prelude.thy ===== *)
theory Prelude
  imports Main
begin

text \<open>
  Shared vocabulary of the development: the errors and diagnostics the C++ code raises or
  prints, the sum-type bind used to thread errors, the column-major data frames that Rcpp
  hands to the code, and the generic list lemmas the component theories share.
\<close>

section \<open>Collections\<close>

named_theorems frame_simps \<open>rewrites for column-major data frame access\<close>

section \<open>Errors and diagnostics\<close>

text \<open>
  \<open>Rcpp::stop\<close> and the exceptions of \<open>std::stoi\<close> abort the exported function; each is a
  constructor of \<open>error\<close>. \<open>RowAttrExhausted\<close> stands for the read past the end of the
  row-attribute column in \<open>xml_sheet_data\<close> (undefined behaviour in the C++), and
  \<open>IndexOutOfBounds\<close> for Rcpp's exception on a missing named data-frame column.
\<close>

datatype error =
    StopNotXf
  | StopInlineStr
  | InvalidArgument
  | OutOfRange
  | IndexOutOfBounds string
  | RowAttrExhausted

text \<open>What \<open>read_xf\<close> prints on \<open>Rcpp::Rcout\<close> and then continues.\<close>

datatype warning =
    WarnUnknownAttr string
  | WarnInvalidChild string

definition rbind :: "'e + 'a \<Rightarrow> ('a \<Rightarrow> 'e + 'b) \<Rightarrow> 'e + 'b" where
  "rbind m f = (case m of Inl e \<Rightarrow> Inl e | Inr a \<Rightarrow> f a)"

section \<open>The absent-value sentinel\<close>

text \<open>\<open>rnastring\<close> in \<open>xml_sheet_data\<close>: the string R writes for a missing value.\<close>

definition rnastring :: string where
  "rnastring = ''_openxlsx_NA_''"

section \<open>Data frames\<close>

text \<open>
  An R \<open>data.frame\<close> as Rcpp sees it: a list of named columns (here of strings, as every
  column this code reads is a \<open>CharacterVector\<close>) and a row count. R keeps every column
  at the row count; \<open>df_wf\<close> states that invariant, and the theorems assume it where the
  C++ indexes a column without a bounds check.
\<close>

record dataframe =
  df_names :: "string list"
  df_cols :: "string list list"
  df_nrow :: nat

definition df_wf :: "dataframe \<Rightarrow> bool" where
  "df_wf d \<longleftrightarrow> length (df_names d) = length (df_cols d)
     \<and> list_all (\<lambda>c. length c = df_nrow d) (df_cols d)"

text \<open>\<open>df["name"]\<close>: the first column with that name, or Rcpp's \<open>index_out_of_bounds\<close>.\<close>

fun col_lookup :: "string list \<Rightarrow> string list list \<Rightarrow> string \<Rightarrow> error + string list" where
  "col_lookup (n # ns) (c # cs) nm = (if n = nm then Inr c else col_lookup ns cs nm)"
| "col_lookup _ _ nm = Inl (IndexOutOfBounds nm)"

definition df_col :: "dataframe \<Rightarrow> string \<Rightarrow> error + string list" where
  "df_col d nm = col_lookup (df_names d) (df_cols d) nm"

section \<open>Rows of column-major tables\<close>

text \<open>
  The code writes one cell at a time into a list of columns (\<open>df[ii][itr] = v\<close>). Reading
  and replacing a whole row of such a table are the abstractions its proofs use.
\<close>

definition get_row :: "'a list list \<Rightarrow> nat \<Rightarrow> 'a list" where
  "get_row cs i = map (\<lambda>c. c ! i) cs"

definition set_row :: "'a list list \<Rightarrow> nat \<Rightarrow> 'a list \<Rightarrow> 'a list list" where
  "set_row cs i r = map2 (\<lambda>c x. c[i := x]) cs r"

text \<open>
  The inverse view: a table given by its rows, stored as \<open>K\<close> columns. It is what
  \<open>read_xf\<close> builds, one row per \<open><xf>\<close> element.
\<close>

definition cols_of :: "nat \<Rightarrow> 'a list list \<Rightarrow> 'a list list" where
  "cols_of K rows = map (\<lambda>k. map (\<lambda>r. r ! k) rows) [0..<K]"

section \<open>Lemmas: error propagation\<close>

lemma rbind_Inl [simp]: "rbind (Inl e) f = Inl e"
  by (simp add: rbind_def)

lemma rbind_Inr [simp]: "rbind (Inr a) f = f a"
  by (simp add: rbind_def)

lemma rbind_eq_Inr:
  "rbind m f = Inr b \<longleftrightarrow> (\<exists>a. m = Inr a \<and> f a = Inr b)"
  by (cases m) auto

section \<open>Lemmas: named columns\<close>

lemma col_lookup_set: "col_lookup ns cs nm = Inr c \<Longrightarrow> c \<in> set cs"
  by (induction ns cs nm rule: col_lookup.induct) (auto split: if_splits)

lemma col_lookup_missing: "nm \<notin> set ns \<Longrightarrow> col_lookup ns cs nm = Inl (IndexOutOfBounds nm)"
  by (induction ns cs nm rule: col_lookup.induct) auto

lemma col_lookup_present: "length ns = length cs \<Longrightarrow> nm \<in> set ns \<Longrightarrow> \<exists>c. col_lookup ns cs nm = Inr c"
  by (induction ns cs nm rule: col_lookup.induct) auto

lemma df_col_length: "df_wf d \<Longrightarrow> df_col d nm = Inr c \<Longrightarrow> length c = df_nrow d"
  by (auto simp: df_wf_def df_col_def list_all_iff dest: col_lookup_set)

section \<open>Lemmas: rows of column-major tables\<close>

lemma length_get_row [simp, frame_simps]: "length (get_row cs i) = length cs"
  by (simp add: get_row_def)

lemma length_set_row [simp, frame_simps]:
  "length r = length cs \<Longrightarrow> length (set_row cs i r) = length cs"
  by (simp add: set_row_def)

lemma nth_set_row [frame_simps]:
  "k < length cs \<Longrightarrow> length r = length cs \<Longrightarrow> set_row cs i r ! k = (cs ! k)[i := r ! k]"
  by (simp add: set_row_def)

lemma cell_update_as_set_row [frame_simps]:
  assumes "k < length cs"
  shows "cs[k := (cs ! k)[i := v]] = set_row cs i ((get_row cs i)[k := v])"
  using assms
  by (auto simp: set_row_def get_row_def list_eq_iff_nth_eq nth_list_update)

lemma set_row_set_row [frame_simps]:
  "length r = length cs \<Longrightarrow> length r' = length cs \<Longrightarrow>
   set_row (set_row cs i r) i r' = set_row cs i r'"
  by (simp add: set_row_def list_eq_iff_nth_eq)

lemma get_row_set_row [frame_simps]:
  "length r = length cs \<Longrightarrow> list_all (\<lambda>c. i < length c) cs \<Longrightarrow>
   get_row (set_row cs i r) i = r"
  by (simp add: set_row_def get_row_def list_eq_iff_nth_eq list_all_length)

lemma get_row_set_row_other [frame_simps]:
  "length r = length cs \<Longrightarrow> j \<noteq> i \<Longrightarrow> get_row (set_row cs i r) j = get_row cs j"
  by (simp add: set_row_def get_row_def list_eq_iff_nth_eq)

lemma set_row_lengths [frame_simps]:
  "length r = length cs \<Longrightarrow> list_all (\<lambda>c. P (length c)) (set_row cs i r) = list_all (\<lambda>c. P (length c)) cs"
  by (simp add: set_row_def list_all_length)

lemma set_row_get_row [frame_simps]:
  "set_row cs i (get_row cs i) = cs"
  by (simp add: set_row_def get_row_def list_eq_iff_nth_eq)

lemma length_cols_of [simp, frame_simps]: "length (cols_of K rows) = K"
  by (simp add: cols_of_def)

lemma cols_of_lengths [frame_simps]: "list_all (\<lambda>c. length c = length rows) (cols_of K rows)"
  by (simp add: cols_of_def list_all_length)

lemma get_row_cols_of [frame_simps]:
  "i < length rows \<Longrightarrow> length (rows ! i) = K \<Longrightarrow> get_row (cols_of K rows) i = rows ! i"
  by (simp add: cols_of_def get_row_def list_eq_iff_nth_eq)

lemma set_row_cols_of [frame_simps]:
  "length r = K \<Longrightarrow> set_row (cols_of K rows) i r = cols_of K (rows[i := r])"
  by (rule nth_equalityI) (auto simp: cols_of_def set_row_def map_update)

lemma cols_of_get_rows [frame_simps]:
  "length cs = K \<Longrightarrow> list_all (\<lambda>c. length c = n) cs \<Longrightarrow> cols_of K (map (get_row cs) [0..<n]) = cs"
  by (simp add: cols_of_def get_row_def list_eq_iff_nth_eq list_all_length)

lemma cols_of_replicate [frame_simps]:
  "cols_of K (replicate n (replicate K x)) = replicate K (replicate n x)"
  by (simp add: cols_of_def list_eq_iff_nth_eq)

text \<open>
  A loop whose body only touches row \<open>i\<close> of a column-major table, and appends to a log,
  is the row-level loop on that row: the lemma the two attribute loops of \<open>read_xf\<close>
  and its child loop are instances of.
\<close>

lemma fold_row_local:
  assumes step: "\<And>a cs ws. length cs = K \<Longrightarrow> list_all (\<lambda>c. i < length c) cs \<Longrightarrow>
                   g a (cs, ws) = (set_row cs i (f a (get_row cs i)), ws @ w a)"
    and len: "\<And>a r. length r = K \<Longrightarrow> length (f a r) = K"
    and "length cs = K" and "list_all (\<lambda>c. i < length c) cs"
  shows "fold g as (cs, ws) = (set_row cs i (fold f as (get_row cs i)), ws @ concat (map w as))"
  using assms(3,4)
proof (induction as arbitrary: cs ws)
  case Nil
  then show ?case by (simp add: set_row_get_row)
next
  case (Cons a as)
  let ?r = "f a (get_row cs i)"
  have lr: "length ?r = length cs" using Cons.prems len by simp
  have inv: "length (set_row cs i ?r) = K" "list_all (\<lambda>c. i < length c) (set_row cs i ?r)"
    using Cons.prems lr by (simp_all add: set_row_lengths)
  have "fold g (a # as) (cs, ws) = fold g as (set_row cs i ?r, ws @ w a)"
    using Cons.prems by (simp add: step)
  also have "\<dots> = (set_row (set_row cs i ?r) i (fold f as (get_row (set_row cs i ?r) i)),
                   (ws @ w a) @ concat (map w as))"
    by (rule Cons.IH [OF inv])
  also have "\<dots> = (set_row cs i (fold f (a # as) (get_row cs i)), ws @ concat (map w (a # as)))"
  proof -
    have fl: "length (fold f as ?r) = length cs"
      using lr Cons.prems by (induction as arbitrary: cs rule: rev_induct) (auto simp: len)
    show ?thesis
      using Cons.prems lr fl by (simp add: get_row_set_row set_row_set_row)
  qed
  finally show ?case .
qed

section \<open>Lists\<close>

lemma length_tl_less: "xs \<noteq> [] \<Longrightarrow> length (tl xs) < length xs"
  by (cases xs) auto

lemma length_dropWhile_tl_less: "xs \<noteq> [] \<Longrightarrow> length (dropWhile P (tl xs)) < length xs"
  using length_dropWhile_le [of P "tl xs"] by (cases xs) auto

lemma takeWhile_append_stop:
  "list_all P xs \<Longrightarrow> ys = [] \<or> \<not> P (hd ys) \<Longrightarrow> takeWhile P (xs @ ys) = xs"
  by (induction xs; cases ys) auto

lemma dropWhile_append_stop:
  "list_all P xs \<Longrightarrow> ys = [] \<or> \<not> P (hd ys) \<Longrightarrow> dropWhile P (xs @ ys) = ys"
  by (induction xs; cases ys) auto

section \<open>Association lists\<close>

lemma map_of_rev_distinct:
  "distinct (map fst xs) \<Longrightarrow> map_of (rev xs) = map_of xs"
proof (induction xs)
  case Nil
  then show ?case by simp
next
  case (Cons a xs)
  then show ?case
    by (auto simp: map_add_def fun_eq_iff split: option.splits dest: map_of_SomeD intro: rev_image_eqI)
qed

end
