(* ===== verification/Pugi.thy ===== *)
theory Pugi
  imports Prelude
begin

text \<open>
  The part of pugixml that the two source files use: a document tree of element, text
  (pcdata) and CDATA nodes (the last only come from parsing an inline string), built by \<open>append_child\<close>/\<open>append_attribute\<close>, and its serialisation by
  \<open>xml_node::print\<close> with \<open>format_raw\<close>, with or without \<open>format_no_escapes\<close>. pugixml is a
  library the sources call, not code of the repository: this theory follows its
  documented output format (pugixml 1.12, \<open>node_output\<close> and \<open>text_output_escaped\<close>).
\<close>

section \<open>Document trees\<close>

type_synonym attrs = "(string \<times> string) list"

datatype xnode =
    XElem string attrs "xnode list"
  | XPcdata string
  | XCdata string

text \<open>\<open>xml_node::name()\<close>: a text or CDATA node has the empty name.\<close>

fun node_name :: "xnode \<Rightarrow> string" where
  "node_name (XElem n _ _) = n"
| "node_name (XPcdata _) = []"
| "node_name (XCdata _) = []"

fun node_attrs :: "xnode \<Rightarrow> attrs" where
  "node_attrs (XElem _ as _) = as"
| "node_attrs (XPcdata _) = []"
| "node_attrs (XCdata _) = []"

fun node_children :: "xnode \<Rightarrow> xnode list" where
  "node_children (XElem _ _ cs) = cs"
| "node_children (XPcdata _) = []"
| "node_children (XCdata _) = []"

section \<open>Escaping\<close>

text \<open>
  \<open>text_output_escaped\<close>: in attribute values pugixml escapes \<open>&\<close>, \<open><\<close>, the double quote
  and every control character; in text it escapes \<open>&\<close>, \<open><\<close>, \<open>>\<close> and the control
  characters other than tab, line feed and carriage return. A control character is written
  as a two-digit decimal character reference.
\<close>

definition char_ref :: "char \<Rightarrow> string" where
  "char_ref c = (let n = (of_char c :: nat) in
     ''&#'' @ [char_of (48 + n div 10), char_of (48 + n mod 10)] @ '';'')"

definition esc_attr_char :: "char \<Rightarrow> string" where
  "esc_attr_char c =
     (if c = CHR ''&'' then ''&amp;''
      else if c = CHR ''<'' then ''&lt;''
      else if c = CHR 0x22 then ''&quot;''
      else if of_char c < (32::nat) then char_ref c
      else [c])"

definition esc_text_char :: "char \<Rightarrow> string" where
  "esc_text_char c =
     (if c = CHR ''&'' then ''&amp;''
      else if c = CHR ''<'' then ''&lt;''
      else if c = CHR ''>'' then ''&gt;''
      else if of_char c < (32::nat) \<and> c \<notin> {CHR 0x09, CHR 0x0A, CHR 0x0D} then char_ref c
      else [c])"

definition text_out :: "bool \<Rightarrow> (char \<Rightarrow> string) \<Rightarrow> string \<Rightarrow> string" where
  "text_out esc f s = (if esc then concat (map f s) else s)"

text \<open>
  \<open>text_output_cdata\<close>: a CDATA node is written as \<open><![CDATA[...]]>\<close>, unescaped; an
  occurrence of \<open>]]>\<close> in its value is split over two sections, the \<open>]]\<close> ending the
  first and the \<open>>\<close> opening the next.
\<close>

function cdata_body :: "string \<Rightarrow> string" where
  "cdata_body [] = []"
| "cdata_body (c # s) =
     (if c = CHR '']'' \<and> take 2 s = '']>'' then '']]]]><![CDATA[>'' @ cdata_body (drop 2 s)
      else c # cdata_body s)"
  by pat_completeness auto
termination
  by (relation "measure length") auto

section \<open>Serialisation with format_raw\<close>

text \<open>
  \<open>esc\<close> is false under \<open>format_no_escapes\<close>. An element without children is closed as
  \<open><name/>\<close> (no space under \<open>format_raw\<close>); attributes are written in the order they were
  appended, each as \<open> name="value"\<close>.
\<close>

definition print_attr :: "bool \<Rightarrow> string \<times> string \<Rightarrow> string" where
  "print_attr esc a = '' '' @ fst a @ ''='' @ [CHR 0x22] @ text_out esc esc_attr_char (snd a) @ [CHR 0x22]"

fun print_node :: "bool \<Rightarrow> xnode \<Rightarrow> string" where
  "print_node esc (XPcdata s) = text_out esc esc_text_char s"
| "print_node esc (XCdata s) = ''<![CDATA['' @ cdata_body s @ '']]>''"
| "print_node esc (XElem n as cs) =
     ''<'' @ n @ concat (map (print_attr esc) as) @
     (if cs = [] then ''/>''
      else ''>'' @ concat (map (print_node esc) cs) @ ''</'' @ n @ ''>'')"

text \<open>\<open>xml_document::print\<close>: the top-level nodes one after the other.\<close>

definition print_doc :: "bool \<Rightarrow> xnode list \<Rightarrow> string" where
  "print_doc esc ns = concat (map (print_node esc) ns)"

end
