(* ===== verification/Styles.thy ===== *)
theory Styles
  imports Pugi
begin

text \<open>
  The style-record codec of src/src/styles_xml.cpp: \<open>read_xf\<close> turns a document of
  \<open><xf>\<close> elements into a 25-column data frame of strings, \<open>has_it\<close> decides whether a row
  needs one of the optional children, and \<open>write_xf\<close> turns each row back into one
  \<open><xf>\<close> fragment. The definitions follow the C++ loops (column-major updates, attribute
  lists built in column order); the abstract readings \<open>decode_xf\<close> and \<open>part_attrs\<close> state
  what the loops compute, and the lemmas prove the loops equal to them, the round trip
  \<open>read_xf (write_xf d) = d\<close>, the record count and the error behaviour.
\<close>

section \<open>The name tables\<close>

text \<open>\<open>nams\<close> in \<open>read_xf\<close>: the 25 column names of the result (openxml 2.8.1).\<close>

definition nams :: "string list" where
  "nams = [''applyAlignment'', ''applyBorder'', ''applyFill'', ''applyFont'',
    ''applyNumberFormat'', ''applyProtection'', ''borderId'', ''fillId'', ''fontId'',
    ''numFmtId'', ''pivotButton'', ''quotePrefix'', ''xfId'',
    ''horizontal'', ''indent'', ''justifyLastLine'', ''readingOrder'', ''relativeIndent'',
    ''shrinkToFit'', ''textRotation'', ''vertical'', ''wrapText'',
    ''extLst'',
    ''hidden'', ''locked'']"

text \<open>The four partitions \<open>write_xf\<close> uses: the attributes of \<open><xf>\<close> itself and of its
  three optional children.\<close>

definition xf_nams :: "string list" where
  "xf_nams = [''applyAlignment'', ''applyBorder'', ''applyFill'', ''applyFont'',
    ''applyNumberFormat'', ''applyProtection'', ''borderId'', ''fillId'', ''fontId'',
    ''numFmtId'', ''pivotButton'', ''quotePrefix'', ''xfId'']"

definition xf_nams_alignment :: "string list" where
  "xf_nams_alignment = [''horizontal'', ''indent'', ''justifyLastLine'', ''readingOrder'',
    ''relativeIndent'', ''shrinkToFit'', ''textRotation'', ''vertical'', ''wrapText'']"

definition xf_nams_extLst :: "string list" where
  "xf_nams_extLst = [''extLst'']"

definition xf_nams_protection :: "string list" where
  "xf_nams_protection = [''hidden'', ''locked'']"

section \<open>read_xf\<close>

text \<open>
  The ``mimic which'' idiom: \<open>Rcpp::match(nams, attr_name)\<close> marks the positions of
  \<open>nams\<close> equal to the name, and the one unmarked index is the column. \<open>nams\<close> has no
  duplicates (\<open>distinct_nams\<close>), so the position is the first one.
\<close>

fun which_name :: "string list \<Rightarrow> string \<Rightarrow> nat option" where
  "which_name [] nm = None"
| "which_name (n # ns) nm = (if n = nm then Some 0 else map_option Suc (which_name ns nm))"

type_synonym xf_state = "string list list \<times> warning list"

text \<open>The body of the attribute loops: store the value in row \<open>itr\<close> of the column with
  that name, or print that the name is unknown and drop the value.\<close>

definition read_xf_attr :: "nat \<Rightarrow> string \<times> string \<Rightarrow> xf_state \<Rightarrow> xf_state" where
  "read_xf_attr itr a st =
     (case which_name nams (fst a) of
        None \<Rightarrow> (fst st, snd st @ [WarnUnknownAttr (fst a)])
      | Some ii \<Rightarrow> ((fst st)[ii := ((fst st) ! ii)[itr := snd a]], snd st))"

definition known_child :: "string \<Rightarrow> bool" where
  "known_child n \<longleftrightarrow> n = ''alignment'' \<or> n = ''extLst'' \<or> n = ''protection''"

definition read_xf_child :: "nat \<Rightarrow> xnode \<Rightarrow> xf_state \<Rightarrow> xf_state" where
  "read_xf_child itr c st =
     (if known_child (node_name c) then fold (read_xf_attr itr) (node_attrs c) st
      else (fst st, snd st @ [WarnInvalidChild (node_name c)]))"

definition read_xf_elem :: "nat \<Rightarrow> xnode \<Rightarrow> xf_state \<Rightarrow> xf_state" where
  "read_xf_elem itr x st =
     fold (read_xf_child itr) (node_children x) (fold (read_xf_attr itr) (node_attrs x) st)"

text \<open>The loop over the document's children; a child not named \<open>xf\<close> stops the call
  (\<open>Rcpp::stop("xml_node is not xf")\<close>) after the warnings already printed.\<close>

fun read_xf_loop :: "nat \<Rightarrow> xnode list \<Rightarrow> xf_state \<Rightarrow> warning list \<times> (error + string list list)" where
  "read_xf_loop itr [] st = (snd st, Inr (fst st))"
| "read_xf_loop itr (x # xs) st =
     (if node_name x \<noteq> ''xf'' then (snd st, Inl StopNotXf)
      else read_xf_loop (Suc itr) xs (read_xf_elem itr x st))"

definition read_xf :: "xnode list \<Rightarrow> warning list \<times> (error + dataframe)" where
  "read_xf doc =
     (let nn = length doc;
          kk = length nams;
          r = read_xf_loop 0 doc (replicate kk (replicate nn []), [])
      in (fst r, case snd r of
                   Inl e \<Rightarrow> Inl e
                 | Inr cols \<Rightarrow> Inr \<lparr>df_names = nams, df_cols = cols, df_nrow = nn\<rparr>))"

section \<open>has_it and write_xf\<close>

text \<open>\<open>has_it\<close>: the columns whose names are in \<open>nms\<close>, scanned for a non-empty value in
  the row. Only the empty string counts as absent.\<close>

definition has_it :: "dataframe \<Rightarrow> string list \<Rightarrow> nat \<Rightarrow> bool" where
  "has_it d nms row =
     fold (\<lambda>c h. if c ! row \<noteq> [] then True else h)
       (map snd (filter (\<lambda>nc. fst nc \<in> set nms) (zip (df_names d) (df_cols d)))) False"

text \<open>The attribute lists of \<open><xf>\<close> and its three children while the column loop runs.\<close>

record xf_build =
  b_xf :: attrs
  b_alignment :: attrs
  b_extLst :: attrs
  b_protection :: attrs

definition add_if :: "bool \<Rightarrow> string \<times> string \<Rightarrow> attrs \<Rightarrow> attrs" where
  "add_if c a as = (if c \<and> snd a \<noteq> [] then as @ [a] else as)"

text \<open>One iteration of the column loop of \<open>write_xf\<close> (column \<open>nm\<close>, row \<open>i\<close>).\<close>

definition write_xf_col ::
  "bool \<Rightarrow> bool \<Rightarrow> bool \<Rightarrow> nat \<Rightarrow> string \<times> string list \<Rightarrow> xf_build \<Rightarrow> xf_build" where
  "write_xf_col has_alignment has_extLst has_protection i col b =
     (let nm = fst col; a = (nm, snd col ! i) in
      b\<lparr>b_xf := add_if (nm \<in> set xf_nams) a (b_xf b),
        b_alignment := add_if (has_alignment \<and> nm \<in> set xf_nams_alignment) a (b_alignment b),
        b_extLst := add_if (has_extLst \<and> nm \<in> set xf_nams_extLst) a (b_extLst b),
        b_protection := add_if (has_protection \<and> nm \<in> set xf_nams_protection) a (b_protection b)\<rparr>)"

definition empty_build :: xf_build where
  "empty_build = \<lparr>b_xf = [], b_alignment = [], b_extLst = [], b_protection = []\<rparr>"

text \<open>The document of row \<open>i\<close>: the children are appended before any attribute, in the
  order alignment, extLst, protection.\<close>

definition write_xf_node :: "dataframe \<Rightarrow> nat \<Rightarrow> xnode" where
  "write_xf_node d i =
     (let has_alignment = has_it d xf_nams_alignment i;
          has_extLst = has_it d xf_nams_extLst i;
          has_protection = has_it d xf_nams_protection i;
          b = fold (write_xf_col has_alignment has_extLst has_protection i)
                (zip (df_names d) (df_cols d)) empty_build
      in XElem ''xf'' (b_xf b)
           ((if has_alignment then [XElem ''alignment'' (b_alignment b) []] else []) @
            (if has_extLst then [XElem ''extLst'' (b_extLst b) []] else []) @
            (if has_protection then [XElem ''protection'' (b_protection b) []] else [])))"

definition write_xf :: "dataframe \<Rightarrow> string list" where
  "write_xf d = map (\<lambda>i. print_node True (write_xf_node d i)) [0..<df_nrow d]"

section \<open>What read_xf computes\<close>

text \<open>
  The row one \<open><xf>\<close> element gives: every attribute of the element and of its known
  children, in document order, stored in the column of its name; a later attribute of the
  same name overwrites an earlier one. The children's attributes are looked up in all 25
  names, not only in their own partition. The warnings are those of the unknown names and
  unknown children, in the order the loops meet them.
\<close>

definition is_xf :: "xnode \<Rightarrow> bool" where
  "is_xf x \<longleftrightarrow> node_name x = ''xf''"

definition xf_row_upd :: "string \<times> string \<Rightarrow> string list \<Rightarrow> string list" where
  "xf_row_upd a row = (case which_name nams (fst a) of None \<Rightarrow> row | Some ii \<Rightarrow> row[ii := snd a])"

definition attr_warnings :: "attrs \<Rightarrow> warning list" where
  "attr_warnings as = map (\<lambda>a. WarnUnknownAttr (fst a)) (filter (\<lambda>a. which_name nams (fst a) = None) as)"

definition child_warnings :: "xnode \<Rightarrow> warning list" where
  "child_warnings c = (if known_child (node_name c) then attr_warnings (node_attrs c)
                       else [WarnInvalidChild (node_name c)])"

definition child_row :: "xnode \<Rightarrow> string list \<Rightarrow> string list" where
  "child_row c = (if known_child (node_name c) then fold xf_row_upd (node_attrs c) else id)"

definition xf_attr_seq :: "xnode \<Rightarrow> attrs" where
  "xf_attr_seq x = node_attrs x @ concat (map node_attrs (filter (\<lambda>c. known_child (node_name c)) (node_children x)))"

definition elem_warnings :: "xnode \<Rightarrow> warning list" where
  "elem_warnings x = attr_warnings (node_attrs x) @ concat (map child_warnings (node_children x))"

definition blank_row :: "string list" where
  "blank_row = replicate (length nams) []"

definition decode_xf :: "xnode \<Rightarrow> string list" where
  "decode_xf x = fold xf_row_upd (xf_attr_seq x) blank_row"

text \<open>
  What \<open>write_xf\<close> emits for one partition of the names: the columns of the row whose name
  is in the partition and whose value is not empty, in column order.
\<close>

definition pick :: "string list \<Rightarrow> nat \<Rightarrow> (string \<times> string list) list \<Rightarrow> attrs" where
  "pick P i ncs = map (\<lambda>nc. (fst nc, snd nc ! i)) (filter (\<lambda>nc. fst nc \<in> set P \<and> snd nc ! i \<noteq> []) ncs)"

definition part_attrs :: "string list \<Rightarrow> dataframe \<Rightarrow> nat \<Rightarrow> attrs" where
  "part_attrs P d i = pick P i (zip (df_names d) (df_cols d))"

definition opt_child :: "string \<Rightarrow> attrs \<Rightarrow> xnode list" where
  "opt_child n as = (if as = [] then [] else [XElem n as []])"

section \<open>Lemmas: the name tables\<close>

lemma distinct_nams: "distinct nams"
  by (simp add: nams_def)

lemma nams_partition:
  "set nams = set xf_nams \<union> set xf_nams_alignment \<union> set xf_nams_extLst \<union> set xf_nams_protection"
  by (auto simp: nams_def xf_nams_def xf_nams_alignment_def xf_nams_extLst_def xf_nams_protection_def)

lemma nams_disjoint:
  "set xf_nams \<inter> set xf_nams_alignment = {}" "set xf_nams \<inter> set xf_nams_extLst = {}"
  "set xf_nams \<inter> set xf_nams_protection = {}" "set xf_nams_alignment \<inter> set xf_nams_extLst = {}"
  "set xf_nams_alignment \<inter> set xf_nams_protection = {}" "set xf_nams_extLst \<inter> set xf_nams_protection = {}"
  by (auto simp: xf_nams_def xf_nams_alignment_def xf_nams_extLst_def xf_nams_protection_def)

section \<open>Lemmas: read_xf\<close>

lemma which_name_Some: "which_name ns nm = Some i \<Longrightarrow> i < length ns \<and> ns ! i = nm"
  by (induction ns arbitrary: i) (auto split: if_splits)

lemma which_name_None: "which_name ns nm = None \<longleftrightarrow> nm \<notin> set ns"
  by (induction ns) auto

lemma which_name_nth: "distinct ns \<Longrightarrow> k < length ns \<Longrightarrow> which_name ns (ns ! k) = Some k"
proof (induction ns arbitrary: k)
  case Nil
  then show ?case by simp
next
  case (Cons n ns)
  then show ?case by (cases k) auto
qed

lemma length_xf_row_upd [simp]: "length (xf_row_upd a r) = length r"
  by (simp add: xf_row_upd_def split: option.splits)

lemma length_fold_xf_row_upd [simp]: "length (fold xf_row_upd as r) = length r"
  by (induction as arbitrary: r) auto

lemma read_xf_attr_row:
  assumes "length cs = length nams"
  shows "read_xf_attr itr a (cs, ws) = (set_row cs itr (xf_row_upd a (get_row cs itr)), ws @ attr_warnings [a])"
proof (cases "which_name nams (fst a)")
  case None
  then show ?thesis
    by (simp add: read_xf_attr_def xf_row_upd_def attr_warnings_def set_row_get_row)
next
  case (Some ii)
  with assms have "ii < length cs" by (auto dest: which_name_Some)
  with Some show ?thesis
    by (simp add: read_xf_attr_def xf_row_upd_def attr_warnings_def cell_update_as_set_row)
qed

lemma fold_read_xf_attr:
  assumes "length cs = length nams" and "list_all (\<lambda>c. itr < length c) cs"
  shows "fold (read_xf_attr itr) as (cs, ws) =
         (set_row cs itr (fold xf_row_upd as (get_row cs itr)), ws @ attr_warnings as)"
proof -
  have "fold (read_xf_attr itr) as (cs, ws) =
        (set_row cs itr (fold xf_row_upd as (get_row cs itr)), ws @ concat (map (\<lambda>a. attr_warnings [a]) as))"
    by (rule fold_row_local [where K = "length nams"]) (auto simp: read_xf_attr_row assms)
  moreover have "concat (map (\<lambda>a. attr_warnings [a]) as) = attr_warnings as"
    by (induction as) (auto simp: attr_warnings_def)
  ultimately show ?thesis by simp
qed

lemma read_xf_child_row:
  assumes "length cs = length nams" and "list_all (\<lambda>c. itr < length c) cs"
  shows "read_xf_child itr c (cs, ws) = (set_row cs itr (child_row c (get_row cs itr)), ws @ child_warnings c)"
  using assms
  by (simp add: read_xf_child_def child_row_def child_warnings_def fold_read_xf_attr set_row_get_row)

lemma fold_child_row:
  "fold child_row cs r = fold xf_row_upd (concat (map node_attrs (filter (\<lambda>c. known_child (node_name c)) cs))) r"
  by (induction cs arbitrary: r) (auto simp: child_row_def)

lemma length_child_row [simp]: "length (child_row c r) = length r"
  by (simp add: child_row_def)

lemma read_xf_elem_row:
  assumes "length cs = length nams" and "list_all (\<lambda>c. itr < length c) cs"
  shows "read_xf_elem itr x (cs, ws) =
         (set_row cs itr (fold xf_row_upd (xf_attr_seq x) (get_row cs itr)), ws @ elem_warnings x)"
proof -
  let ?r1 = "fold xf_row_upd (node_attrs x) (get_row cs itr)"
  have s1: "fold (read_xf_attr itr) (node_attrs x) (cs, ws) = (set_row cs itr ?r1, ws @ attr_warnings (node_attrs x))"
    using assms by (rule fold_read_xf_attr)
  have inv: "length (set_row cs itr ?r1) = length nams" "list_all (\<lambda>c. itr < length c) (set_row cs itr ?r1)"
    using assms by (simp_all add: set_row_lengths)
  have s2: "fold (read_xf_child itr) (node_children x) (set_row cs itr ?r1, ws @ attr_warnings (node_attrs x)) =
     (set_row (set_row cs itr ?r1) itr (fold child_row (node_children x) (get_row (set_row cs itr ?r1) itr)),
      (ws @ attr_warnings (node_attrs x)) @ concat (map child_warnings (node_children x)))"
    by (rule fold_row_local [where K = "length nams"]) (auto simp: read_xf_child_row inv)
  show ?thesis
    using assms
    by (simp add: read_xf_elem_def s1 s2 get_row_set_row set_row_set_row fold_child_row
                  xf_attr_seq_def elem_warnings_def)
qed

lemma length_decode_xf [simp]: "length (decode_xf x) = length nams"
  by (simp add: decode_xf_def blank_row_def)

lemma read_xf_loop_rows:
  assumes "list_all is_xf xs"
  shows "read_xf_loop (length ds) xs
           (cols_of (length nams) (map decode_xf ds @ replicate (length xs) blank_row), ws) =
         (ws @ concat (map elem_warnings xs), Inr (cols_of (length nams) (map decode_xf (ds @ xs))))"
  using assms
proof (induction xs arbitrary: ds ws)
  case Nil
  then show ?case by simp
next
  case (Cons x xs)
  let ?K = "length nams"
  let ?rows = "map decode_xf ds @ blank_row # replicate (length xs) blank_row"
  have len: "length (cols_of ?K ?rows) = ?K" "list_all (\<lambda>c. length ds < length c) (cols_of ?K ?rows)"
    using cols_of_lengths [of ?rows ?K] by (auto simp: list_all_length)
  have row: "get_row (cols_of ?K ?rows) (length ds) = blank_row"
    by (simp add: get_row_cols_of nth_append blank_row_def)
  have "read_xf_elem (length ds) x (cols_of ?K ?rows, ws) =
        (set_row (cols_of ?K ?rows) (length ds) (decode_xf x), ws @ elem_warnings x)"
    using read_xf_elem_row [OF len, of x ws] unfolding row decode_xf_def .
  also have "\<dots> = (cols_of ?K (map decode_xf (ds @ [x]) @ replicate (length xs) blank_row), ws @ elem_warnings x)"
    by (simp add: set_row_cols_of list_update_append)
  finally have step: "read_xf_elem (length ds) x (cols_of ?K ?rows, ws) =
    (cols_of ?K (map decode_xf (ds @ [x]) @ replicate (length xs) blank_row), ws @ elem_warnings x)" .
  have "read_xf_loop (length (ds @ [x])) xs
      (cols_of ?K (map decode_xf (ds @ [x]) @ replicate (length xs) blank_row), ws @ elem_warnings x) =
      ((ws @ elem_warnings x) @ concat (map elem_warnings xs), Inr (cols_of ?K (map decode_xf ((ds @ [x]) @ xs))))"
    using Cons.prems by (intro Cons.IH) simp
  with step show ?case
    using Cons.prems by (simp add: is_xf_def)
qed

theorem read_xf_refines:
  assumes "list_all is_xf doc"
  shows "read_xf doc = (concat (map elem_warnings doc),
            Inr \<lparr>df_names = nams, df_cols = cols_of (length nams) (map decode_xf doc), df_nrow = length doc\<rparr>)"
proof -
  have init: "replicate (length nams) (replicate (length doc) []) =
              cols_of (length nams) (map decode_xf [] @ replicate (length doc) blank_row)"
    by (simp add: blank_row_def cols_of_replicate)
  show ?thesis
    using read_xf_loop_rows [OF assms, of "[]" "[]"]
    by (simp add: read_xf_def init)
qed

lemma read_xf_loop_stop:
  "\<not> list_all is_xf xs \<Longrightarrow> snd (read_xf_loop itr xs st) = Inl StopNotXf"
  by (induction xs arbitrary: itr st) (auto simp: is_xf_def)

lemma read_xf_Inr_all_xf:
  assumes "read_xf doc = (ws, Inr d)"
  shows "list_all is_xf doc"
proof (rule ccontr)
  assume "\<not> list_all is_xf doc"
  then have "snd (read_xf_loop 0 doc (replicate (length nams) (replicate (length doc) []), [])) = Inl StopNotXf"
    by (rule read_xf_loop_stop)
  then have "snd (read_xf doc) = Inl StopNotXf" by (simp add: read_xf_def)
  with assms show False by simp
qed

text \<open>C10: read_xf stops with the error 'xml_node is not xf' when some top-level node of the document is not an <xf> element.\<close>

theorem read_xf_not_xf:
  assumes "\<not> list_all is_xf doc"
  shows "snd (read_xf doc) = Inl StopNotXf"
  using read_xf_loop_stop [OF assms] by (simp add: read_xf_def split: sum.splits)

section \<open>Lemmas: write_xf and the round trip\<close>

lemma fold_flag: "fold (\<lambda>c h. if c ! row \<noteq> [] then True else h) cs h = (h \<or> (\<exists>c \<in> set cs. c ! row \<noteq> []))"
  by (induction cs arbitrary: h) auto

lemma has_it_iff: "has_it d P i \<longleftrightarrow> part_attrs P d i \<noteq> []"
  by (force simp: has_it_def part_attrs_def pick_def fold_flag filter_empty_conv)

lemma add_if_eq: "add_if c a as = as @ (if c \<and> snd a \<noteq> [] then [a] else [])"
  by (simp add: add_if_def)

lemma pick_Nil [simp]: "pick P i [] = []"
  by (simp add: pick_def)

lemma pick_Cons [simp]:
  "pick P i (nc # ncs) =
     (if fst nc \<in> set P \<and> snd nc ! i \<noteq> [] then [(fst nc, snd nc ! i)] else []) @ pick P i ncs"
  by (simp add: pick_def)

lemma fold_write_xf_col:
  "fold (write_xf_col ha he hp i) ncs b =
     b\<lparr>b_xf := b_xf b @ pick xf_nams i ncs,
       b_alignment := b_alignment b @ (if ha then pick xf_nams_alignment i ncs else []),
       b_extLst := b_extLst b @ (if he then pick xf_nams_extLst i ncs else []),
       b_protection := b_protection b @ (if hp then pick xf_nams_protection i ncs else [])\<rparr>"
  by (cases ha; cases he; cases hp; induction ncs arbitrary: b) (simp_all add: write_xf_col_def add_if_eq Let_def)

theorem write_xf_node_spec:
  "write_xf_node d i =
     XElem ''xf'' (part_attrs xf_nams d i)
       (opt_child ''alignment'' (part_attrs xf_nams_alignment d i) @
        opt_child ''extLst'' (part_attrs xf_nams_extLst d i) @
        opt_child ''protection'' (part_attrs xf_nams_protection d i))"
  by (simp add: write_xf_node_def fold_write_xf_col empty_build_def has_it_iff opt_child_def
                flip: part_attrs_def)

lemma map_of_pick:
  assumes "distinct ns" and "length cs = length ns" and "k < length ns"
  shows "map_of (pick P i (zip ns cs)) (ns ! k) =
         (if ns ! k \<in> set P \<and> cs ! k ! i \<noteq> [] then Some (cs ! k ! i) else None)"
  using assms
proof (induction ns arbitrary: cs k)
  case Nil
  then show ?case by simp
next
  case (Cons n ns)
  then obtain c cs' where cs: "cs = c # cs'" by (cases cs) auto
  have notin: "map_of (pick P i (zip ns cs')) n = None"
    using Cons.prems by (auto simp: pick_def map_of_eq_None_iff dest: set_zip_leftD)
  show ?case
  proof (cases k)
    case 0
    then show ?thesis using notin by (simp add: cs pick_def)
  next
    case (Suc k')
    then have "ns ! k' \<noteq> n" using Cons.prems by auto
    then show ?thesis using Cons.prems Cons.IH [of cs' k'] Suc by (simp add: cs pick_def)
  qed
qed

lemma distinct_pick: "distinct ns \<Longrightarrow> distinct (map fst (pick P i (zip ns cs)))"
proof (induction ns arbitrary: cs)
  case Nil
  then show ?case by (simp add: pick_def)
next
  case (Cons n ns)
  then show ?case
    by (cases cs) (auto simp: pick_def dest: set_zip_leftD)
qed

lemma xf_row_upd_nth:
  assumes "length r = length nams" and "k < length nams"
  shows "xf_row_upd a r ! k = (if fst a = nams ! k then snd a else r ! k)"
proof (cases "which_name nams (fst a)")
  case None
  then have "fst a \<noteq> nams ! k" using assms by (auto simp: which_name_None)
  with None show ?thesis by (simp add: xf_row_upd_def)
next
  case (Some ii)
  then have ii: "ii < length nams" "nams ! ii = fst a" by (auto dest: which_name_Some)
  then have eq: "ii = k \<longleftrightarrow> fst a = nams ! k"
    using assms distinct_nams by (auto simp: nth_eq_iff_index_eq)
  have "xf_row_upd a r ! k = r[ii := snd a] ! k"
    using Some by (simp add: xf_row_upd_def)
  also have "\<dots> = (if ii = k then snd a else r ! k)"
    using assms by (simp add: nth_list_update)
  finally show ?thesis by (simp only: eq)
qed

lemma fold_xf_row_upd_nth:
  assumes "length r = length nams" and "k < length nams"
  shows "fold xf_row_upd as r ! k = (case map_of (rev as) (nams ! k) of None \<Rightarrow> r ! k | Some v \<Rightarrow> v)"
  using assms(1)
proof (induction as arbitrary: r)
  case Nil
  then show ?case by simp
next
  case (Cons a as)
  then have "fold xf_row_upd (a # as) r ! k =
             (case map_of (rev as) (nams ! k) of None \<Rightarrow> xf_row_upd a r ! k | Some v \<Rightarrow> v)"
    by simp
  with Cons.prems assms(2) show ?case
    by (simp add: xf_row_upd_nth map_add_def split: option.splits)
qed

theorem decode_xf_nth:
  "k < length nams \<Longrightarrow>
   decode_xf x ! k = (case map_of (rev (xf_attr_seq x)) (nams ! k) of None \<Rightarrow> [] | Some v \<Rightarrow> v)"
  by (simp add: decode_xf_def fold_xf_row_upd_nth blank_row_def split: option.split)

lemma xf_attr_seq_write_xf_node:
  "xf_attr_seq (write_xf_node d i) =
     part_attrs xf_nams d i @ part_attrs xf_nams_alignment d i @
     part_attrs xf_nams_extLst d i @ part_attrs xf_nams_protection d i"
  by (simp add: write_xf_node_spec xf_attr_seq_def opt_child_def known_child_def)

lemma decode_write_xf_node:
  assumes wf: "df_wf d" and nm: "df_names d = nams" and i: "i < df_nrow d"
  shows "decode_xf (write_xf_node d i) = get_row (df_cols d) i"
proof (rule nth_equalityI)
  have lc: "length (df_cols d) = length nams" using wf nm by (simp add: df_wf_def)
  then show "length (decode_xf (write_xf_node d i)) = length (get_row (df_cols d) i)" by simp
  fix k assume "k < length (decode_xf (write_xf_node d i))"
  then have k: "k < length nams" by simp
  let ?v = "df_cols d ! k ! i"
  have lk: "map_of (part_attrs P d i) (nams ! k) = (if nams ! k \<in> set P \<and> ?v \<noteq> [] then Some ?v else None)" for P
    unfolding part_attrs_def nm using map_of_pick [OF distinct_nams lc k] .
  have dist: "distinct (map fst (part_attrs P d i))" for P
    unfolding part_attrs_def nm by (rule distinct_pick [OF distinct_nams])
  have mem: "nams ! k \<in> set xf_nams \<union> set xf_nams_alignment \<union> set xf_nams_extLst \<union> set xf_nams_protection"
    using k nams_partition nth_mem by blast
  have "decode_xf (write_xf_node d i) ! k = (if ?v \<noteq> [] then ?v else [])"
    using mem nams_disjoint
    by (simp add: decode_xf_nth k xf_attr_seq_write_xf_node map_of_rev_distinct dist map_add_def lk
             split: option.splits) blast
  also have "\<dots> = get_row (df_cols d) i ! k"
    using k lc by (simp add: get_row_def)
  finally show "decode_xf (write_xf_node d i) ! k = get_row (df_cols d) i ! k" .
qed

lemma attr_warnings_known:
  "fst ` set as \<subseteq> set nams \<Longrightarrow> attr_warnings as = []"
  by (auto simp: attr_warnings_def filter_empty_conv which_name_None)

lemma fst_pick_subset: "fst ` set (pick P i (zip ns cs)) \<subseteq> set ns"
  by (auto simp: pick_def dest: set_zip_leftD)

lemma elem_warnings_write_xf_node:
  assumes "df_names d = nams"
  shows "elem_warnings (write_xf_node d i) = []"
proof -
  have "attr_warnings (part_attrs P d i) = []" for P
    by (rule attr_warnings_known) (use fst_pick_subset assms in \<open>simp add: part_attrs_def\<close>)
  then show ?thesis
    by (simp add: write_xf_node_spec elem_warnings_def opt_child_def child_warnings_def known_child_def)
qed

text \<open>C1: Round trip of the style codec: reading back the <xf> elements that write_xf builds from a well-formed data frame with the 25 columns of nams gives that data frame again, with no warning.\<close>

theorem read_write_xf_roundtrip:
  assumes wf: "df_wf d" and nm: "df_names d = nams"
  shows "read_xf (map (write_xf_node d) [0..<df_nrow d]) = ([], Inr d)"
proof -
  let ?doc = "map (write_xf_node d) [0..<df_nrow d]"
  have xf: "list_all is_xf ?doc"
    by (simp add: list_all_length write_xf_node_spec is_xf_def)
  have ws: "concat (map elem_warnings ?doc) = []"
    using nm by (simp add: elem_warnings_write_xf_node)
  have rows: "map decode_xf ?doc = map (get_row (df_cols d)) [0..<df_nrow d]"
    using wf nm by (simp add: decode_write_xf_node)
  have cols: "cols_of (length nams) (map (get_row (df_cols d)) [0..<df_nrow d]) = df_cols d"
    using wf nm by (intro cols_of_get_rows) (simp_all add: df_wf_def)
  have "read_xf ?doc = ([], Inr \<lparr>df_names = nams, df_cols = df_cols d, df_nrow = df_nrow d\<rparr>)"
    by (simp only: read_xf_refines [OF xf] ws rows cols length_map length_upt diff_zero)
  also have "\<dots> = ([], Inr d)"
    using nm by (cases d) simp
  finally show ?thesis .
qed

section \<open>Properties of the codec\<close>

text \<open>C3: read_xf on a document of <xf> elements returns a well-formed data frame with the 25 columns of nams and one row per element, row i being what decode_xf reads from element i, and prints the warnings elem_warnings collects.\<close>

theorem read_xf_rows_decoded:
  assumes "list_all is_xf doc"
  shows "\<exists>d. read_xf doc = (concat (map elem_warnings doc), Inr d) \<and> df_wf d \<and> df_names d = nams \<and>
             df_nrow d = length doc \<and> (\<forall>i < length doc. get_row (df_cols d) i = decode_xf (doc ! i))"
proof -
  let ?d = "\<lparr>df_names = nams, df_cols = cols_of (length nams) (map decode_xf doc), df_nrow = length doc\<rparr>"
  have "df_wf ?d"
    using cols_of_lengths [of "map decode_xf doc" "length nams"] by (simp add: df_wf_def)
  moreover have "\<forall>i < length doc. get_row (df_cols ?d) i = decode_xf (doc ! i)"
    by (simp add: get_row_cols_of)
  ultimately show ?thesis using read_xf_refines [OF assms] by auto
qed

text \<open>C6: The <xf> element of a row has an <alignment> child exactly when some alignment column of the row is non-empty, and the child then carries exactly those columns, in column order.\<close>

theorem write_xf_alignment_child:
  "filter (\<lambda>c. node_name c = ''alignment'') (node_children (write_xf_node d i)) =
     (if part_attrs xf_nams_alignment d i = [] then []
      else [XElem ''alignment'' (part_attrs xf_nams_alignment d i) []])"
  by (simp add: write_xf_node_spec opt_child_def)

text \<open>C13: An attribute of <xf> whose name is not in nams is dropped with a warning; the row read is the one without it.\<close>

theorem read_xf_unknown_attr:
  assumes "n \<notin> set nams"
  shows "read_xf [XElem ''xf'' ((n, v) # as) cs] =
           (WarnUnknownAttr n # fst (read_xf [XElem ''xf'' as cs]), snd (read_xf [XElem ''xf'' as cs]))"
proof -
  have w: "which_name nams n = None" using assms by (simp add: which_name_None)
  have "decode_xf (XElem ''xf'' ((n, v) # as) cs) = decode_xf (XElem ''xf'' as cs)"
    using w by (simp add: decode_xf_def xf_attr_seq_def xf_row_upd_def)
  moreover have "elem_warnings (XElem ''xf'' ((n, v) # as) cs) = WarnUnknownAttr n # elem_warnings (XElem ''xf'' as cs)"
    using w by (simp add: elem_warnings_def attr_warnings_def)
  ultimately show ?thesis
    by (simp add: read_xf_refines is_xf_def)
qed

text \<open>C14: Each cell of the table read_xf returns holds the value of the last attribute of that name on the element or on its alignment, extLst or protection children (whatever child it sits on), and the empty string when there is none.\<close>

theorem read_xf_cell_value:
  assumes "read_xf doc = (ws, Inr d)" and "i < length doc" and "k < length nams"
  shows "df_cols d ! k ! i = (case map_of (rev (xf_attr_seq (doc ! i))) (nams ! k) of None \<Rightarrow> [] | Some v \<Rightarrow> v)"
proof -
  have "list_all is_xf doc" using assms(1) by (rule read_xf_Inr_all_xf)
  then have "d = \<lparr>df_names = nams, df_cols = cols_of (length nams) (map decode_xf doc), df_nrow = length doc\<rparr>"
    using assms(1) by (simp add: read_xf_refines)
  then have "df_cols d ! k ! i = decode_xf (doc ! i) ! k"
    using assms(2,3) by (simp add: cols_of_def)
  then show ?thesis using assms(3) by (simp add: decode_xf_nth)
qed

text \<open>C18: write_xf treats only the empty string as absent: a column of <xf> holding the sentinel _openxlsx_NA_ is written as an attribute with that value.\<close>

theorem write_xf_writes_sentinel:
  assumes "(n, col) \<in> set (zip (df_names d) (df_cols d))" and "n \<in> set xf_nams" and "col ! i = rnastring"
  shows "(n, rnastring) \<in> set (node_attrs (write_xf_node d i))"
  using assms by (force simp: write_xf_node_spec part_attrs_def pick_def rnastring_def)

text \<open>C15: has_it holds exactly when some column whose name is in the given list has a non-empty value in the row.\<close>

theorem has_it_scan:
  "has_it d nms row \<longleftrightarrow> (\<exists>(n, col) \<in> set (zip (df_names d) (df_cols d)). n \<in> set nms \<and> col ! row \<noteq> [])"
  by (force simp: has_it_def fold_flag)

end
