(* ===== verification/Stoi.thy ===== *)
theory Stoi
  imports Prelude
begin

text \<open>
  \<open>std::stoi\<close> as \<open>xml_sheet_data\<close> uses it to read row identifiers (libstdc++: \<open>strtol\<close> in
  base 10, then a range check against \<open>int\<close>). Leading white space is skipped, one sign is
  accepted, the longest run of decimal digits is read and the rest of the string is
  ignored; no digit at all raises \<open>std::invalid_argument\<close>, a value outside the 32-bit
  \<open>int\<close> range raises \<open>std::out_of_range\<close>. The theory also defines the decimal rendering
  of an integer, the form in which R hands row numbers to the code, and proves that
  \<open>stoi\<close> reads it back.
\<close>

section \<open>The parser\<close>

definition is_c_space :: "char \<Rightarrow> bool" where
  "is_c_space c \<longleftrightarrow> c \<in> {CHR '' '', CHR 0x09, CHR 0x0A, CHR 0x0B, CHR 0x0C, CHR 0x0D}"

definition is_digit :: "char \<Rightarrow> bool" where
  "is_digit c \<longleftrightarrow> (48::nat) \<le> of_char c \<and> of_char c \<le> (57::nat)"

definition digit_val :: "char \<Rightarrow> nat" where
  "digit_val c = of_char c - 48"

definition digits_val :: "string \<Rightarrow> nat" where
  "digits_val ds = foldl (\<lambda>a d. 10 * a + digit_val d) 0 ds"

definition int_min :: int where "int_min = - (2 ^ 31)"
definition int_max :: int where "int_max = 2 ^ 31 - 1"

definition split_sign :: "string \<Rightarrow> bool \<times> string" where
  "split_sign t =
     (case t of
        c # r \<Rightarrow> (if c = CHR ''-'' then (True, r) else if c = CHR ''+'' then (False, r) else (False, t))
      | [] \<Rightarrow> (False, []))"

definition stoi :: "string \<Rightarrow> error + int" where
  "stoi s =
     (let (neg, u) = split_sign (dropWhile is_c_space s);
          ds = takeWhile is_digit u
      in if ds = [] then Inl InvalidArgument
         else (let v = (if neg then - int (digits_val ds) else int (digits_val ds))
               in if v < int_min \<or> int_max < v then Inl OutOfRange else Inr v))"

section \<open>Decimal rendering\<close>

fun dec_digits :: "nat \<Rightarrow> string" where
  "dec_digits n =
     (if n < 10 then [char_of (48 + n)] else dec_digits (n div 10) @ [char_of (48 + n mod 10)])"

definition int_to_dec :: "int \<Rightarrow> string" where
  "int_to_dec i = (if i < 0 then CHR ''-'' # dec_digits (nat (- i)) else dec_digits (nat i))"

declare dec_digits.simps [simp del]

section \<open>Lemmas\<close>

lemma digit_char [simp]: "(d::nat) < 10 \<Longrightarrow> is_digit (char_of (48 + d))"
  by (simp add: is_digit_def of_char_of)

lemma digit_val_char [simp]: "(d::nat) < 10 \<Longrightarrow> digit_val (char_of (48 + d)) = d"
  by (simp add: digit_val_def of_char_of)

lemma dec_digits_all_digits: "list_all is_digit (dec_digits n)"
proof (induction n rule: dec_digits.induct)
  case (1 n)
  then show ?case by (subst dec_digits.simps) auto
qed

lemma dec_digits_nonempty [simp]: "dec_digits n \<noteq> []"
  by (subst dec_digits.simps) simp

lemma digits_val_snoc [simp]: "digits_val (ds @ [d]) = 10 * digits_val ds + digit_val d"
  by (simp add: digits_val_def)

lemma digits_val_dec_digits [simp]: "digits_val (dec_digits n) = n"
proof (induction n rule: dec_digits.induct)
  case (1 n)
  show ?case
  proof (cases "n < 10")
    case True
    then show ?thesis by (subst dec_digits.simps) (simp add: digits_val_def)
  next
    case False
    with "1.IH" show ?thesis by (subst dec_digits.simps) simp
  qed
qed

lemma takeWhile_all [simp]: "list_all P xs \<Longrightarrow> takeWhile P xs = xs"
  by (induction xs) auto

lemma dropWhile_space_digits [simp]: "list_all is_digit ds \<Longrightarrow> dropWhile is_c_space ds = ds"
  by (cases ds) (auto simp: is_digit_def is_c_space_def)

lemma split_sign_digits [simp]:
  "list_all is_digit ds \<Longrightarrow> split_sign ds = (False, ds)"
  by (cases ds) (auto simp: split_sign_def is_digit_def)

lemma stoi_range: "stoi s = Inr v \<Longrightarrow> int_min \<le> v \<and> v \<le> int_max"
  by (auto simp: stoi_def Let_def split: prod.splits if_splits)

text \<open>\<open>stoi\<close> reads back the decimal rendering of every integer in the 32-bit range, and
  raises \<open>out_of_range\<close> for every other one.\<close>

lemma stoi_int_to_dec:
  "stoi (int_to_dec i) = (if int_min \<le> i \<and> i \<le> int_max then Inr i else Inl OutOfRange)"
proof (cases "i < 0")
  case True
  have "split_sign (dropWhile is_c_space (CHR ''-'' # dec_digits (nat (- i)))) =
        (True, dec_digits (nat (- i)))"
    by (simp add: split_sign_def is_c_space_def)
  with True show ?thesis
    by (simp add: stoi_def int_to_dec_def dec_digits_all_digits)
next
  case False
  then show ?thesis
    by (simp add: stoi_def int_to_dec_def dec_digits_all_digits)
qed

end
