(* ===== verification/SheetData.thy ===== *)
theory SheetData
  imports Pugi Stoi
begin

text \<open>
  The worksheet writer of src/src/write_file.cpp. \<open>xml_sheet_data\<close> walks the cell table
  in order; for a cell of a row not yet open it replays the row-attribute table up to that
  row (\<open>emit_rows\<close>, the inner \<open>while\<close> loop), so that rows without cells still appear, and
  then appends the cell, built by \<open>cell_node\<close>, to the last row opened. \<open>write_worksheet\<close>
  writes the declaration, the prologue, the \<open><sheetData>\<close> block and the epilogue to a file;
  \<open>set_sst\<close> wraps shared strings. The row loop is stated over any cell emitter
  (\<open>sheet_loop emit\<close>): the theorems about row reconstruction hold for every emitter that
  succeeds, and \<open>xml_sheet_data\<close> instantiates it with \<open>cell_node\<close>.
\<close>

section \<open>Cells\<close>

text \<open>One row of the cell table \<open>cc\<close>: the eleven columns the code reads.\<close>

record cell =
  c_row_r :: string
  c_r :: string
  c_v :: string
  c_c_t :: string
  c_c_s :: string
  c_f :: string
  c_f_t :: string
  c_f_ref :: string
  c_f_ca :: string
  c_f_si :: string
  c_is :: string

definition opt_attr :: "string \<Rightarrow> string \<Rightarrow> attrs" where
  "opt_attr n v = (if v \<noteq> rnastring then [(n, v)] else [])"

text \<open>The attributes of \<open><c>\<close> (lines 109--117): \<open>r\<close> always, \<open>s\<close> and \<open>t\<close> when present.\<close>

definition cell_attrs :: "cell \<Rightarrow> attrs" where
  "cell_attrs c = [(''r'', c_r c)] @ opt_attr ''s'' (c_c_s c) @ opt_attr ''t'' (c_c_t c)"

text \<open>The \<open><f>\<close> child (lines 121--142): present when the formula, its type or its
  shared index is present; its text is the \<open>f\<close> field whatever it holds.\<close>

definition has_formula :: "cell \<Rightarrow> bool" where
  "has_formula c \<longleftrightarrow> c_f c \<noteq> rnastring \<or> c_f_t c \<noteq> rnastring \<or> c_f_si c \<noteq> rnastring"

definition f_nodes :: "cell \<Rightarrow> xnode list" where
  "f_nodes c =
     (if has_formula c
      then [XElem ''f'' (opt_attr ''t'' (c_f_t c) @ opt_attr ''ref'' (c_f_ref c) @
                         opt_attr ''ca'' (c_f_ca c) @ opt_attr ''si'' (c_f_si c))
              [XPcdata (c_f c)]]
      else [])"

text \<open>The flag \<open>f_si\<close>, set inside the formula block when \<open>si\<close> is written.\<close>

definition f_si_seen :: "cell \<Rightarrow> bool" where
  "f_si_seen c \<longleftrightarrow> has_formula c \<and> c_f_si c \<noteq> rnastring"

text \<open>The \<open><v>\<close> child (lines 144--152).\<close>

definition v_nodes :: "cell \<Rightarrow> xnode list" where
  "v_nodes c =
     (if c_v c \<noteq> rnastring
      then (if \<not> f_si_seen c \<and> c_v c = []
            then [XElem ''v'' [(''xml:space'', ''preserve'')] [XPcdata '' '']]
            else [XElem ''v'' [] [XPcdata (c_v c)]])
      else [])"

text \<open>
  The \<open><c>\<close> node of one cell (lines 103--164). \<open>parse_is\<close> is pugixml's \<open>load_string\<close>
  with the code's parse flags: \<open>None\<close> when the string is not well-formed, otherwise the
  top-level nodes of the parsed document, of which the first is copied.
\<close>

definition cell_node :: "(string \<Rightarrow> xnode list option) \<Rightarrow> cell \<Rightarrow> error + xnode" where
  "cell_node parse_is c =
     (if c_c_t c = ''inlineStr'' \<and> c_is c \<noteq> rnastring
      then (case parse_is (c_is c) of
              None \<Rightarrow> Inl StopInlineStr
            | Some ns \<Rightarrow> Inr (XElem ''c'' (cell_attrs c) (f_nodes c @ v_nodes c @ take 1 ns)))
      else Inr (XElem ''c'' (cell_attrs c) (f_nodes c @ v_nodes c)))"

section \<open>Rows\<close>

text \<open>The attributes of row \<open>idx\<close> of the row-attribute table: every non-empty field, in
  column order (lines 85--96).\<close>

definition row_attrs :: "dataframe \<Rightarrow> nat \<Rightarrow> attrs" where
  "row_attrs ra idx =
     map (\<lambda>nc. (fst nc, snd nc ! idx)) (filter (\<lambda>nc. snd nc ! idx \<noteq> []) (zip (df_names ra) (df_cols ra)))"

text \<open>
  The loop state of \<open>xml_sheet_data\<close>: \<open>lastrow\<close>, \<open>row_idx\<close>, \<open>rowid\<close> and the document,
  whose top-level nodes are the \<open><row>\<close> elements (attributes and cells). The handle
  \<open>row\<close> always designates the last row appended, so it is not kept separately; before
  the first row it is pugixml's null handle.
\<close>

record sheet_state =
  lastrow :: int
  row_idx :: nat
  rowid :: int
  rows :: "(attrs \<times> xnode list) list"

definition init_state :: sheet_state where
  "init_state = \<lparr>lastrow = 0, row_idx = 0, rowid = 0, rows = []\<rparr>"

text \<open>
  The inner \<open>while (rowid < thisrow)\<close> loop (lines 78--100). Reading \<open>row_r[row_idx]\<close>
  past the end of the column is undefined behaviour in the C++; here it is the error
  \<open>RowAttrExhausted\<close>. The loop ends because \<open>row_idx\<close> grows towards the length of
  \<open>row_r\<close>.
\<close>

function emit_rows :: "dataframe \<Rightarrow> string list \<Rightarrow> int \<Rightarrow> sheet_state \<Rightarrow> error + sheet_state" where
  "emit_rows ra row_r thisrow st =
     (if rowid st < thisrow then
        (if row_idx st < length row_r then
           (case stoi (row_r ! row_idx st) of
              Inl e \<Rightarrow> Inl e
            | Inr rid \<Rightarrow>
                emit_rows ra row_r thisrow
                  (st\<lparr>rowid := rid, rows := rows st @ [(row_attrs ra (row_idx st), [])],
                      row_idx := Suc (row_idx st)\<rparr>))
         else Inl RowAttrExhausted)
      else Inr st)"
  by pat_completeness auto
termination
  by (relation "measure (\<lambda>(ra, row_r, thisrow, st). length row_r - row_idx st)") auto

declare emit_rows.simps [simp del]

text \<open>\<open>row.append_child("c")\<close>: the cell goes to the last row; on the null handle it is lost.\<close>

definition append_cell :: "xnode \<Rightarrow> (attrs \<times> xnode list) list \<Rightarrow> (attrs \<times> xnode list) list" where
  "append_cell n rs = (if rs = [] then [] else butlast rs @ [(fst (last rs), snd (last rs) @ [n])])"

text \<open>One iteration of the cell loop (lines 69--168), for a cell emitter \<open>emit\<close>.\<close>

definition sheet_step ::
  "(cell \<Rightarrow> error + xnode) \<Rightarrow> dataframe \<Rightarrow> string list \<Rightarrow> cell \<Rightarrow> sheet_state \<Rightarrow> error + sheet_state" where
  "sheet_step emit ra row_r c st =
     rbind (stoi (c_row_r c)) (\<lambda>thisrow.
     rbind (if lastrow st < thisrow then emit_rows ra row_r thisrow st else Inr st) (\<lambda>st'.
     rbind (emit c) (\<lambda>n.
     Inr (st'\<lparr>rows := append_cell n (rows st'), lastrow := thisrow\<rparr>))))"

fun sheet_loop ::
  "(cell \<Rightarrow> error + xnode) \<Rightarrow> dataframe \<Rightarrow> string list \<Rightarrow> cell list \<Rightarrow> sheet_state \<Rightarrow> error + sheet_state" where
  "sheet_loop emit ra row_r [] st = Inr st"
| "sheet_loop emit ra row_r (c # cs) st = rbind (sheet_step emit ra row_r c st) (sheet_loop emit ra row_r cs)"

section \<open>xml_sheet_data\<close>

text \<open>The named columns of \<open>cc\<close> the code extracts first (lines 55--65), in that order.\<close>

definition cc_names :: "string list" where
  "cc_names = [''row_r'', ''r'', ''v'', ''c_t'', ''c_s'', ''f'', ''f_t'', ''f_ref'', ''f_ca'', ''f_si'', ''is'']"

fun lookup_cols :: "dataframe \<Rightarrow> string list \<Rightarrow> error + string list list" where
  "lookup_cols d [] = Inr []"
| "lookup_cols d (n # ns) = rbind (df_col d n) (\<lambda>c. rbind (lookup_cols d ns) (\<lambda>cs. Inr (c # cs)))"

text \<open>
  \<open>to_string\<close> (lines 25--28): \<open>Rcpp::as<std::string>\<close> of one element of a character
  column. The columns are strings in this model, so it returns the element (an \<open>NA\<close>
  element is its print name).
\<close>

definition to_string :: "string \<Rightarrow> string" where
  "to_string x = x"

text \<open>
  The fields of cell \<open>i\<close> as the loop body reads them: the row with \<open>Rcpp::as\<close> (line 71),
  the others through \<open>to_string\<close> (lines 110--159).
\<close>

definition mk_cell :: "string list list \<Rightarrow> nat \<Rightarrow> cell" where
  "mk_cell cs i =
     \<lparr>c_row_r = cs ! 0 ! i, c_r = to_string (cs ! 1 ! i), c_v = to_string (cs ! 2 ! i),
      c_c_t = to_string (cs ! 3 ! i), c_c_s = to_string (cs ! 4 ! i), c_f = to_string (cs ! 5 ! i),
      c_f_t = to_string (cs ! 6 ! i), c_f_ref = to_string (cs ! 7 ! i), c_f_ca = to_string (cs ! 8 ! i),
      c_f_si = to_string (cs ! 9 ! i), c_is = to_string (cs ! 10 ! i)\<rparr>"

definition row_node :: "attrs \<times> xnode list \<Rightarrow> xnode" where
  "row_node r = XElem ''row'' (fst r) (snd r)"

text \<open>The whole function (lines 36--173): serialised with \<open>format_raw | format_no_escapes\<close>.\<close>

definition xml_sheet_data :: "(string \<Rightarrow> xnode list option) \<Rightarrow> dataframe \<Rightarrow> dataframe \<Rightarrow> error + string" where
  "xml_sheet_data parse_is row_attr cc =
     rbind (lookup_cols cc cc_names) (\<lambda>cs.
     rbind (df_col row_attr ''r'') (\<lambda>row_r.
     rbind (sheet_loop (cell_node parse_is) row_attr row_r (map (mk_cell cs) [0..<df_nrow cc]) init_state) (\<lambda>st.
     Inr (print_doc False (map row_node (rows st))))))"

section \<open>write_worksheet and set_sst\<close>

type_synonym files = "string \<Rightarrow> string option"

definition xml_decl :: string where
  "xml_decl = ''<?xml version='' @ [CHR 0x22] @ ''1.0'' @ [CHR 0x22] @ '' encoding='' @ [CHR 0x22] @
     ''UTF-8'' @ [CHR 0x22] @ '' standalone='' @ [CHR 0x22] @ ''yes'' @ [CHR 0x22] @ ''?>'' @ [CHR 0x0A]"

text \<open>
  \<open>write_worksheet\<close> (lines 182--221): the file named \<open>fname\<close> is truncated and written in
  order. When \<open>xml_sheet_data\<close> fails, the exception leaves the file with what was written
  before it (the stream is flushed when it is destroyed) and the call reports the error.
\<close>

definition write_worksheet ::
  "(string \<Rightarrow> xnode list option) \<Rightarrow> string \<Rightarrow> string \<Rightarrow> dataframe \<Rightarrow> dataframe \<Rightarrow> string \<Rightarrow> files \<Rightarrow>
   files \<times> (error + unit)" where
  "write_worksheet parse_is prior post row_attr cc fname fs =
     (let head = xml_decl @ prior in
      if df_nrow row_attr = 0 \<or> df_nrow cc = 0
      then (fs(fname \<mapsto> head @ ''<sheetData />'' @ post), Inr ())
      else (case xml_sheet_data parse_is row_attr cc of
              Inl e \<Rightarrow> (fs(fname \<mapsto> head @ ''<sheetData>''), Inl e)
            | Inr s \<Rightarrow> (fs(fname \<mapsto> head @ ''<sheetData>'' @ s @ ''</sheetData>'' @ post), Inr ())))"

text \<open>\<open>set_sst\<close> (lines 5--22): each string as \<open><si><t>...</t></si>\<close>, escaped.\<close>

definition set_sst :: "string list \<Rightarrow> string list" where
  "set_sst ss = map (\<lambda>s. print_node True (XElem ''si'' [] [XElem ''t'' [] [XPcdata s]])) ss"

section \<open>What the row loop computes\<close>

text \<open>
  For well-formed input (row identifiers strictly increasing and positive, cells sorted by
  row, every cell's row present in the row-attribute table) the loop has a closed form,
  \<open>sheet_abs\<close>: after the cells \<open>cn\<close> (row number and node, in order), the rows emitted
  are those of the table up to the last cell's row, and row \<open>k\<close> holds exactly the
  cells whose row is \<open>rids ! k\<close>, in order.
\<close>

definition rows_upto :: "int list \<Rightarrow> int \<Rightarrow> nat" where
  "rows_upto rids r = length (takeWhile (\<lambda>x. x \<le> r) rids)"

definition abs_row :: "dataframe \<Rightarrow> int list \<Rightarrow> (int \<times> xnode) list \<Rightarrow> nat \<Rightarrow> attrs \<times> xnode list" where
  "abs_row ra rids cn k = (row_attrs ra k, map snd (filter (\<lambda>x. fst x = rids ! k) cn))"

definition sheet_abs :: "dataframe \<Rightarrow> int list \<Rightarrow> (int \<times> xnode) list \<Rightarrow> sheet_state" where
  "sheet_abs ra rids cn =
     (let lr = (if cn = [] then 0 else fst (last cn)); p = rows_upto rids lr in
      \<lparr>lastrow = lr, row_idx = p, rowid = (if p = 0 then 0 else rids ! (p - 1)),
       rows = map (abs_row ra rids cn) [0..<p]\<rparr>)"

definition sheet_input_ok :: "int list \<Rightarrow> (int \<times> xnode) list \<Rightarrow> bool" where
  "sheet_input_ok rids cn \<longleftrightarrow> sorted_wrt (<) rids \<and> list_all (\<lambda>r. 0 < r) rids \<and>
     sorted (map fst cn) \<and> list_all (\<lambda>x. fst x \<in> set rids) cn"

text \<open>The loop invariant: the two row numbers stay in the range of a C++ \<open>int\<close>,
  \<open>row_idx\<close> never passes the end of \<open>row_r\<close>, and one row was emitted per row read.\<close>

definition sheet_inv :: "string list \<Rightarrow> sheet_state \<Rightarrow> bool" where
  "sheet_inv row_r st \<longleftrightarrow>
     int_min \<le> lastrow st \<and> lastrow st \<le> int_max \<and> int_min \<le> rowid st \<and> rowid st \<le> int_max \<and>
     row_idx st \<le> length row_r \<and> length (rows st) = row_idx st"

section \<open>Lemmas: row reconstruction\<close>


lemma emit_rows_upto:
  assumes rr: "map stoi row_r = map Inr rids" and srt: "sorted_wrt (<) rids"
    and q: "q < length rids"
  shows "j \<le> q \<Longrightarrow> row_idx st = j \<Longrightarrow> rowid st < rids ! q \<Longrightarrow>
         emit_rows ra row_r (rids ! q) st =
           Inr (st\<lparr>rowid := rids ! q, rows := rows st @ map (\<lambda>k. (row_attrs ra k, [])) [j..<Suc q],
                   row_idx := Suc q\<rparr>)"
proof (induction "q - j" arbitrary: j st)
  case 0
  then have j: "j = q" by simp
  have lr: "length row_r = length rids" using rr by (metis length_map)
  have s: "stoi (row_r ! q) = Inr (rids ! q)"
    using rr q lr by (metis nth_map)
  show ?case
    using 0 j q lr s by (simp add: emit_rows.simps [of ra row_r "rids ! q"])
next
  case (Suc n)
  then have jq: "j < q" by simp
  have lr: "length row_r = length rids" using rr by (metis length_map)
  have s: "stoi (row_r ! j) = Inr (rids ! j)"
    using rr q lr jq by (metis nth_map order.strict_trans)
  have lt: "rids ! j < rids ! q" using srt jq q by (simp add: sorted_wrt_iff_nth_less)
  let ?st = "st\<lparr>rowid := rids ! j, rows := rows st @ [(row_attrs ra j, [])], row_idx := Suc j\<rparr>"
  have IH: "emit_rows ra row_r (rids ! q) ?st =
      Inr (?st\<lparr>rowid := rids ! q, rows := rows ?st @ map (\<lambda>k. (row_attrs ra k, [])) [Suc j..<Suc q],
               row_idx := Suc q\<rparr>)"
    using Suc.hyps(2) jq lt by (intro Suc.hyps(1)) simp_all
  have "emit_rows ra row_r (rids ! q) st = emit_rows ra row_r (rids ! q) ?st"
    using Suc.prems jq q lr s by (subst emit_rows.simps) simp
  also have "\<dots> = Inr (st\<lparr>rowid := rids ! q, rows := rows st @ map (\<lambda>k. (row_attrs ra k, [])) [j..<Suc q],
                   row_idx := Suc q\<rparr>)"
    using IH jq by (simp add: upt_conv_Cons)
  finally show ?case .
qed

lemma rows_upto_nth:
  assumes "sorted_wrt (<) rids" and "q < length rids"
  shows "rows_upto rids (rids ! q) = Suc q"
proof -
  have "takeWhile (\<lambda>x. x \<le> rids ! q) rids = take (Suc q) rids"
  proof (rule takeWhile_eq_take_P_nth)
    show "\<And>i. i < Suc q \<Longrightarrow> i < length rids \<Longrightarrow> rids ! i \<le> rids ! q"
    proof -
      fix i assume "i < Suc q" "i < length rids"
      then show "rids ! i \<le> rids ! q"
        using assms by (cases "i = q") (auto simp: sorted_wrt_iff_nth_less intro: less_imp_le)
    qed
    show "Suc q < length rids \<Longrightarrow> \<not> rids ! Suc q \<le> rids ! q"
      using assms(1) by (simp add: sorted_wrt_iff_nth_less not_le)
  qed
  then show ?thesis using assms by (simp add: rows_upto_def)
qed

lemma rows_upto_above:
  assumes "sorted_wrt (<) rids" and "rows_upto rids lr \<le> k" and "k < length rids"
  shows "lr < rids ! k"
proof -
  let ?p = "rows_upto rids lr"
  have "?p < length rids" using assms by simp
  then have "\<not> rids ! ?p \<le> lr"
    using nth_length_takeWhile [of "\<lambda>x. x \<le> lr" rids] by (simp add: rows_upto_def)
  moreover have "rids ! ?p \<le> rids ! k"
    using assms by (cases "?p = k") (auto simp: sorted_wrt_iff_nth_less intro: less_imp_le)
  ultimately show ?thesis by simp
qed

lemma rows_upto_below:
  assumes "k < rows_upto rids lr"
  shows "rids ! k \<le> lr"
proof -
  have "takeWhile (\<lambda>x. x \<le> lr) rids ! k = rids ! k"
    using assms by (simp add: rows_upto_def takeWhile_nth)
  moreover have "takeWhile (\<lambda>x. x \<le> lr) rids ! k \<in> set (takeWhile (\<lambda>x. x \<le> lr) rids)"
    using assms by (simp add: rows_upto_def)
  ultimately show ?thesis by (metis set_takeWhileD)
qed

lemma rows_upto_le_length: "rows_upto rids lr \<le> length rids"
  by (simp add: rows_upto_def length_takeWhile_le)

lemma rows_upto_zero:
  "list_all (\<lambda>r. 0 < r) rids \<Longrightarrow> rows_upto rids 0 = 0"
  by (cases rids) (auto simp: rows_upto_def)

lemma sheet_abs_Nil:
  "list_all (\<lambda>r. 0 < r) rids \<Longrightarrow> sheet_abs ra rids [] = init_state"
  by (simp add: sheet_abs_def rows_upto_zero init_state_def)

lemma append_cell_snoc:
  "append_cell n (xs @ [x]) = xs @ [(fst x, snd x @ [n])]"
  by (simp add: append_cell_def)

lemma abs_row_snoc_other:
  "rids ! k \<noteq> r \<Longrightarrow> abs_row ra rids (cn @ [(r, n)]) k = abs_row ra rids cn k"
  by (simp add: abs_row_def)

lemma abs_row_snoc_same:
  "rids ! k = r \<Longrightarrow> abs_row ra rids (cn @ [(r, n)]) k =
     (fst (abs_row ra rids cn k), snd (abs_row ra rids cn k) @ [n])"
  by (simp add: abs_row_def)

lemma abs_row_none:
  "list_all (\<lambda>x. fst x < rids ! k) cn \<Longrightarrow> abs_row ra rids cn k = (row_attrs ra k, [])"
  by (auto simp: abs_row_def filter_empty_conv list_all_iff)

lemma sorted_snoc_le:
  "sorted (map fst cn @ [r]) \<Longrightarrow> list_all (\<lambda>x. fst x \<le> r) cn"
  by (simp add: sorted_append list_all_iff)

lemma sorted_le_last:
  "sorted (map fst cn) \<Longrightarrow> cn \<noteq> [] \<Longrightarrow> list_all (\<lambda>x. fst x \<le> fst (last cn)) cn"
  by (cases cn rule: rev_cases) (auto simp: sorted_append list_all_iff)

lemma sheet_abs_fields:
  assumes "sorted_wrt (<) rids" and "list_all (\<lambda>r. 0 < r) rids" and "list_all (\<lambda>x. fst x \<in> set rids) cn"
  obtains q where "cn \<noteq> [] \<Longrightarrow> q < length rids \<and> rids ! q = fst (last cn)"
    and "row_idx (sheet_abs ra rids cn) = (if cn = [] then 0 else Suc q)"
    and "rowid (sheet_abs ra rids cn) = lastrow (sheet_abs ra rids cn)"
    and "lastrow (sheet_abs ra rids cn) = (if cn = [] then 0 else fst (last cn))"
proof (cases "cn = []")
  case True
  then show ?thesis using that [of 0] assms by (simp add: sheet_abs_def rows_upto_zero Let_def)
next
  case False
  then have "fst (last cn) \<in> set rids" using assms(3) by (simp add: list_all_iff)
  then obtain q where q: "q < length rids" "rids ! q = fst (last cn)" by (metis in_set_conv_nth)
  then have "rows_upto rids (fst (last cn)) = Suc q" using assms(1) rows_upto_nth by metis
  then show ?thesis using that [of q] q False by (simp add: sheet_abs_def Let_def)
qed

lemma sheet_abs_rows:
  "rows (sheet_abs ra rids cn) = map (abs_row ra rids cn) [0..<row_idx (sheet_abs ra rids cn)]"
  by (simp add: sheet_abs_def Let_def)

lemma sheet_abs_snoc:
  assumes "sorted_wrt (<) rids" and "q < length rids" and "rids ! q = r"
  shows "sheet_abs ra rids (cn @ [(r, n)]) =
           \<lparr>lastrow = r, row_idx = Suc q, rowid = r, rows = map (abs_row ra rids (cn @ [(r, n)])) [0..<Suc q]\<rparr>"
  using assms rows_upto_nth [OF assms(1,2)] by (simp add: sheet_abs_def Let_def)

lemma sheet_state_update_all:
  "s\<lparr>rowid := a, rows := b, row_idx := c, lastrow := d\<rparr> = \<lparr>lastrow = d, row_idx = c, rowid = a, rows = b\<rparr>"
  "s\<lparr>rows := b, lastrow := d\<rparr> = \<lparr>lastrow = d, row_idx = row_idx s, rowid = rowid s, rows = b\<rparr>"
  by (cases s; simp)+

lemma sheet_step_abs:
  assumes rr: "map stoi row_r = map Inr rids"
    and ok: "sheet_input_ok rids (cn @ [(r, n)])"
    and sr: "stoi (c_row_r c) = Inr r" and en: "emit c = Inr n"
  shows "sheet_step emit ra row_r c (sheet_abs ra rids cn) = Inr (sheet_abs ra rids (cn @ [(r, n)]))"
proof -
  from ok have srt: "sorted_wrt (<) rids" and pos: "list_all (\<lambda>r. 0 < r) rids"
    and sc: "sorted (map fst cn @ [r])" and inr: "list_all (\<lambda>x. fst x \<in> set rids) cn" "r \<in> set rids"
    by (auto simp: sheet_input_ok_def)
  obtain q' where q': "q' < length rids" "rids ! q' = r" using inr(2) by (metis in_set_conv_nth)
  let ?A = "sheet_abs ra rids cn"
  let ?lr = "lastrow ?A"
  obtain q where q: "cn \<noteq> [] \<Longrightarrow> q < length rids \<and> rids ! q = fst (last cn)"
    and idx: "row_idx ?A = (if cn = [] then 0 else Suc q)"
    and rid: "rowid ?A = ?lr" and lrv: "?lr = (if cn = [] then 0 else fst (last cn))"
    using sheet_abs_fields [OF srt pos inr(1)] by blast
  have rpos: "0 < r" using pos inr(2) by (simp add: list_all_iff)
  have below: "list_all (\<lambda>x. fst x \<le> ?lr) cn"
    using sorted_le_last [of cn] sc lrv by (cases "cn = []") (simp_all add: sorted_append)
  have lr_le: "?lr \<le> r"
    using sc lrv rpos by (cases cn rule: rev_cases) (auto simp: sorted_append)
  have p_below: "rids ! k \<le> ?lr" if k: "k < row_idx ?A" for k
  proof -
    have ne: "cn \<noteq> []" using idx k by (auto split: if_splits)
    with q idx k lrv have "k \<le> q" "q < length rids" "rids ! q = ?lr" by auto
    then show ?thesis
      using sorted_wrt_nth_less [OF srt, of k q] by (cases "k = q") auto
  qed
  show ?thesis
  proof (cases "?lr < r")
    case True
    let ?p = "row_idx ?A"
    have pq: "?p \<le> q'"
    proof (cases "cn = []")
      case False
      with q have "rids ! q < rids ! q'" using True lrv q' by simp
      then have "q < q'" using srt q' False q by (metis not_less_iff_gr_or_eq order.asym sorted_wrt_iff_nth_less)
      with idx False show ?thesis by simp
    qed (insert idx, simp)
    have er: "emit_rows ra row_r r ?A =
       Inr (?A\<lparr>rowid := r, rows := rows ?A @ map (\<lambda>k. (row_attrs ra k, [])) [?p..<Suc q'], row_idx := Suc q'\<rparr>)"
      using emit_rows_upto [OF rr srt q'(1) pq, of ?A] True rid q'(2) by simp
    have split: "[0..<Suc q'] = [0..<?p] @ [?p..<q'] @ [q']"
    proof -
      have "[0..<?p + (q' - ?p)] = [0..<?p] @ [?p..<?p + (q' - ?p)]"
        by (rule upt_add_eq_append) simp
      then show ?thesis using pq by simp
    qed
    have r1: "map (abs_row ra rids (cn @ [(r, n)])) [0..<?p] = map (abs_row ra rids cn) [0..<?p]"
      using p_below True by (intro map_cong refl abs_row_snoc_other) fastforce
    have r2: "map (abs_row ra rids (cn @ [(r, n)])) [?p..<q'] = map (\<lambda>k. (row_attrs ra k, [])) [?p..<q']"
    proof (intro map_cong refl)
      fix k assume k: "k \<in> set [?p..<q']"
      then have "?lr < rids ! k" using rows_upto_above [OF srt] q' by (simp add: sheet_abs_def Let_def lrv) 
      then have "list_all (\<lambda>x. fst x < rids ! k) cn"
        using below by (auto simp: list_all_iff)
      moreover have "rids ! k < r" using k q' srt by (auto simp: sorted_wrt_iff_nth_less)
      ultimately show "abs_row ra rids (cn @ [(r, n)]) k = (row_attrs ra k, [])"
        by (simp add: abs_row_snoc_other abs_row_none)
    qed
    have "list_all (\<lambda>x. fst x < rids ! q') cn"
      using below True q'(2) by (auto simp: list_all_iff)
    then have r3: "abs_row ra rids (cn @ [(r, n)]) q' = (row_attrs ra q', [n])"
      using q'(2) by (simp add: abs_row_snoc_same abs_row_none)
    have rows_eq: "append_cell n (rows ?A @ map (\<lambda>k. (row_attrs ra k, [])) [?p..<Suc q']) =
                   map (abs_row ra rids (cn @ [(r, n)])) [0..<Suc q']"
    proof -
      have "rows ?A @ map (\<lambda>k. (row_attrs ra k, [])) [?p..<Suc q'] =
            (map (abs_row ra rids cn) [0..<?p] @ map (\<lambda>k. (row_attrs ra k, [])) [?p..<q']) @ [(row_attrs ra q', [])]"
        using pq by (simp add: sheet_abs_rows)
      then have "append_cell n (rows ?A @ map (\<lambda>k. (row_attrs ra k, [])) [?p..<Suc q']) =
            (map (abs_row ra rids cn) [0..<?p] @ map (\<lambda>k. (row_attrs ra k, [])) [?p..<q']) @ [(row_attrs ra q', [n])]"
        by (simp only: append_cell_snoc fst_conv snd_conv append_Nil)
      also have "\<dots> = map (abs_row ra rids (cn @ [(r, n)])) [0..<?p] @
                        map (abs_row ra rids (cn @ [(r, n)])) [?p..<q'] @ [abs_row ra rids (cn @ [(r, n)]) q']"
        by (simp only: r1 r2 r3 append_assoc)
      also have "\<dots> = map (abs_row ra rids (cn @ [(r, n)])) [0..<Suc q']"
        by (simp only: split map_append list.map)
      finally show ?thesis .
    qed
    show ?thesis
      using True sr en er rows_eq sheet_abs_snoc [OF srt q']
      by (simp add: sheet_step_def sheet_state_update_all)
  next
    case False
    then have eq: "?lr = r" using lr_le by simp
    then have ne: "cn \<noteq> []" using lrv rpos by auto
    with q eq lrv have qq: "q < length rids" "rids ! q = r" by auto
    have r1: "map (abs_row ra rids (cn @ [(r, n)])) [0..<q] = map (abs_row ra rids cn) [0..<q]"
    proof (intro map_cong refl abs_row_snoc_other)
      fix k assume "k \<in> set [0..<q]"
      then have "rids ! k < rids ! q" using sorted_wrt_nth_less [OF srt, of k q] qq by simp
      then show "rids ! k \<noteq> r" using qq by simp
    qed
    have rows_eq: "append_cell n (rows ?A) = map (abs_row ra rids (cn @ [(r, n)])) [0..<Suc q]"
    proof -
      have "append_cell n (rows ?A) = map (abs_row ra rids cn) [0..<q] @
              [(fst (abs_row ra rids cn q), snd (abs_row ra rids cn q) @ [n])]"
        using idx ne by (simp add: sheet_abs_rows append_cell_snoc)
      also have "\<dots> = map (abs_row ra rids (cn @ [(r, n)])) [0..<Suc q]"
        using qq by (simp only: r1 abs_row_snoc_same upt_Suc_append zero_le map_append list.map)
      finally show ?thesis .
    qed
    show ?thesis
      using False sr en ne idx eq rows_eq rid sheet_abs_snoc [OF srt qq]
      by (simp add: sheet_step_def sheet_state_update_all)
  qed
qed

lemma sheet_input_ok_prefix:
  "sheet_input_ok rids (xs @ ys) \<Longrightarrow> sheet_input_ok rids xs"
  by (simp add: sheet_input_ok_def sorted_append)

lemma sheet_loop_abs:
  assumes rr: "map stoi row_r = map Inr rids"
  shows "map (\<lambda>c. stoi (c_row_r c)) cs = map Inr crs \<Longrightarrow> map emit cs = map Inr ns \<Longrightarrow>
         sheet_input_ok rids (cn @ zip crs ns) \<Longrightarrow>
         sheet_loop emit ra row_r cs (sheet_abs ra rids cn) = Inr (sheet_abs ra rids (cn @ zip crs ns))"
proof (induction cs arbitrary: crs ns cn)
  case Nil
  then show ?case by simp
next
  case (Cons c cs)
  then obtain r crs' n ns' where crs: "crs = r # crs'" and ns: "ns = n # ns'"
    by (cases crs; cases ns) auto
  with Cons.prems have sr: "stoi (c_row_r c) = Inr r" and en: "emit c = Inr n"
    and rest: "map (\<lambda>c. stoi (c_row_r c)) cs = map Inr crs'" "map emit cs = map Inr ns'"
    by auto
  have ok: "sheet_input_ok rids ((cn @ [(r, n)]) @ zip crs' ns')"
    using Cons.prems(3) crs ns by simp
  then have ok1: "sheet_input_ok rids (cn @ [(r, n)])" by (rule sheet_input_ok_prefix)
  show ?case
    using sheet_step_abs [where emit = emit and ra = ra, OF rr ok1 sr en] Cons.IH [OF rest ok] crs ns by simp
qed

theorem sheet_loop_refines:
  assumes "map stoi row_r = map Inr rids"
    and "map (\<lambda>c. stoi (c_row_r c)) cells = map Inr crs" and "map emit cells = map Inr ns"
    and "sheet_input_ok rids (zip crs ns)"
  shows "sheet_loop emit ra row_r cells init_state = Inr (sheet_abs ra rids (zip crs ns))"
proof -
  have "list_all (\<lambda>r. 0 < r) rids" using assms(4) by (simp add: sheet_input_ok_def)
  then show ?thesis
    using sheet_loop_abs [OF assms(1,2,3), of "[]"] assms(4) by (simp add: sheet_abs_Nil)
qed

text \<open>C2: Row reconstruction: for row identifiers that parse, increase strictly and are positive, and cells sorted by row whose rows all occur in the row table, xml_sheet_data emits one <row> per row-table entry up to the last cell's row, rows without cells included, each holding exactly its cells in order.\<close>

theorem xml_sheet_data_refines:
  assumes "lookup_cols cc cc_names = Inr cs" and "df_col ra ''r'' = Inr row_r"
    and "map stoi row_r = map Inr rids"
    and "map (\<lambda>i. stoi (c_row_r (mk_cell cs i))) [0..<df_nrow cc] = map Inr crs"
    and "map (\<lambda>i. cell_node parse_is (mk_cell cs i)) [0..<df_nrow cc] = map Inr ns"
    and "sheet_input_ok rids (zip crs ns)"
  shows "xml_sheet_data parse_is ra cc =
           Inr (print_doc False (map row_node (rows (sheet_abs ra rids (zip crs ns)))))"
proof -
  have "sheet_loop (cell_node parse_is) ra row_r (map (mk_cell cs) [0..<df_nrow cc]) init_state =
        Inr (sheet_abs ra rids (zip crs ns))"
    by (rule sheet_loop_refines) (use assms in \<open>simp_all add: comp_def\<close>)
  then show ?thesis using assms(1,2) by (simp add: xml_sheet_data_def)
qed

section \<open>Lemmas: cells, errors, invariant and the file writer\<close>

lemma f_si_seen_iff: "f_si_seen c \<longleftrightarrow> c_f_si c \<noteq> rnastring"
  by (auto simp: f_si_seen_def has_formula_def)

lemma cell_node_plain:
  "c_c_t c \<noteq> ''inlineStr'' \<Longrightarrow> cell_node p c = Inr (XElem ''c'' (cell_attrs c) (f_nodes c @ v_nodes c))"
  by (simp add: cell_node_def)

text \<open>C7: A cell with an empty value and no formula is written as <c ...><v xml:space="preserve"> </v></c>.\<close>

theorem cell_empty_value_preserved:
  assumes "c_v c = []" and "c_f c = rnastring" and "c_f_t c = rnastring" and "c_f_si c = rnastring"
    and "c_c_t c \<noteq> ''inlineStr''"
  shows "cell_node p c = Inr (XElem ''c'' (cell_attrs c) [XElem ''v'' [(''xml:space'', ''preserve'')] [XPcdata '' '']])
       \<and> print_node False (XElem ''v'' [(''xml:space'', ''preserve'')] [XPcdata '' '']) =
           ''<v xml:space='' @ [CHR 0x22] @ ''preserve'' @ [CHR 0x22] @ ''> </v>''"
  using assms
  by (simp add: cell_node_plain f_nodes_def has_formula_def v_nodes_def f_si_seen_def rnastring_def
                print_attr_def text_out_def)

text \<open>C8: A cell whose value is the sentinel (and that is not an inline string) gets no <v> child.\<close>

theorem cell_absent_value:
  assumes "c_v c = rnastring" and "c_c_t c \<noteq> ''inlineStr''" and "cell_node p c = Inr n"
  shows "''v'' \<notin> set (map node_name (node_children n))"
  using assms by (auto simp: cell_node_plain f_nodes_def v_nodes_def)

text \<open>C19: A cell with a formula type but no formula text gets an <f> child whose text is the sentinel _openxlsx_NA_.\<close>

theorem cell_formula_text_sentinel:
  assumes "c_f c = rnastring" and "c_f_t c \<noteq> rnastring" and "cell_node p c = Inr n"
  shows "\<exists>as. hd (node_children n) = XElem ''f'' as [XPcdata rnastring]"
  using assms by (auto simp: cell_node_def f_nodes_def has_formula_def split: if_splits option.splits)

text \<open>C9: An inline-string cell whose stored XML parses gets the first parsed node as its last child, after the <f> and <v> children.\<close>

theorem cell_inline_string_copied:
  assumes "c_c_t c = ''inlineStr''" and "c_is c \<noteq> rnastring" and "p (c_is c) = Some (x # xs)"
  shows "cell_node p c = Inr (XElem ''c'' (cell_attrs c) (f_nodes c @ v_nodes c @ [x]))"
  using assms by (simp add: cell_node_def)

text \<open>C11: An inline-string cell whose stored XML does not parse makes the cell emitter fail with 'loading inlineStr node while writing failed'.\<close>

theorem cell_inline_string_malformed:
  assumes "c_c_t c = ''inlineStr''" and "c_is c \<noteq> rnastring" and "p (c_is c) = None"
  shows "cell_node p c = Inl StopInlineStr"
  using assms by (simp add: cell_node_def)

text \<open>C12: When a cell's row identifier is larger than every remaining row identifier, the inner row loop runs past the end of the row-attribute column (undefined behaviour in the C++, the error RowAttrExhausted here).\<close>

theorem emit_rows_exhausted:
  assumes rr: "map stoi row_r = map Inr rids"
  shows "rowid st < t \<Longrightarrow> row_idx st \<le> length rids \<Longrightarrow> list_all (\<lambda>r. r < t) (drop (row_idx st) rids) \<Longrightarrow>
         emit_rows ra row_r t st = Inl RowAttrExhausted"
proof (induction "length rids - row_idx st" arbitrary: st)
  case 0
  have "length row_r = length rids" using rr by (metis length_map)
  with 0 show ?case by (simp add: emit_rows.simps [of ra row_r t st])
next
  case (Suc m)
  have lr: "length row_r = length rids" using rr by (metis length_map)
  let ?j = "row_idx st"
  have j: "?j < length rids" using Suc.hyps(2) by simp
  have s: "stoi (row_r ! ?j) = Inr (rids ! ?j)" using rr j lr by (metis nth_map)
  have dr: "drop ?j rids = rids ! ?j # drop (Suc ?j) rids" using j by (rule Cons_nth_drop_Suc [symmetric])
  have lt: "rids ! ?j < t" and rest: "list_all (\<lambda>r. r < t) (drop (Suc ?j) rids)"
    using Suc.prems(3) by (simp_all add: dr)
  let ?st = "st\<lparr>rowid := rids ! ?j, rows := rows st @ [(row_attrs ra ?j, [])], row_idx := Suc ?j\<rparr>"
  have "emit_rows ra row_r t ?st = Inl RowAttrExhausted"
    using Suc.hyps(2) lt j rest by (intro Suc.hyps(1)) simp_all
  then show ?case using Suc.prems j lr s by (simp add: emit_rows.simps [of ra row_r t st])
qed

text \<open>C20: A first cell whose row identifier is not positive opens no row: it is appended to pugixml's null handle and lost, only lastrow changes.\<close>

theorem sheet_step_null_row:
  assumes "stoi (c_row_r c) = Inr r" and "r \<le> 0" and "emit c = Inr n"
  shows "sheet_step emit ra row_r c init_state = Inr (init_state\<lparr>lastrow := r\<rparr>)"
  using assms by (simp add: sheet_step_def init_state_def append_cell_def)

lemma emit_rows_inv:
  "sheet_inv row_r st \<Longrightarrow> emit_rows ra row_r t st = Inr st' \<Longrightarrow>
   sheet_inv row_r st' \<and> lastrow st' = lastrow st"
proof (induction ra row_r t st rule: emit_rows.induct)
  case (1 ra row_r thisrow st)
  show ?case
  proof (cases "rowid st < thisrow \<and> row_idx st < length row_r")
    case True
    then obtain rid where s: "stoi (row_r ! row_idx st) = Inr rid"
      using "1.prems"(2) by (cases "stoi (row_r ! row_idx st)") (simp_all add: emit_rows.simps [of ra row_r thisrow st])
    let ?st = "st\<lparr>rowid := rid, rows := rows st @ [(row_attrs ra (row_idx st), [])], row_idx := Suc (row_idx st)\<rparr>"
    have inv: "sheet_inv row_r ?st"
      using "1.prems"(1) True stoi_range [OF s] by (simp add: sheet_inv_def)
    have "emit_rows ra row_r thisrow ?st = Inr st'"
      using "1.prems"(2) True s by (simp add: emit_rows.simps [of ra row_r thisrow st])
    then show ?thesis using "1.IH" [OF _ _ s inv] True by simp
  next
    case False
    then show ?thesis
      using "1.prems" by (auto simp: emit_rows.simps [of ra row_r thisrow st] split: if_splits)
  qed
qed

lemma length_append_cell [simp]: "length (append_cell n rs) = length rs"
  by (simp add: append_cell_def)

lemma sheet_step_inv:
  assumes "sheet_inv row_r st" and "sheet_step emit ra row_r c st = Inr st'"
  shows "sheet_inv row_r st'"
proof -
  obtain t where t: "stoi (c_row_r c) = Inr t"
    using assms(2) by (cases "stoi (c_row_r c)") (simp_all add: sheet_step_def)
  obtain st1 where st1: "(if lastrow st < t then emit_rows ra row_r t st else Inr st) = Inr st1"
    using assms(2) t by (cases "if lastrow st < t then emit_rows ra row_r t st else Inr st") (simp_all add: sheet_step_def)
  have i1: "sheet_inv row_r st1"
    using st1 assms(1) emit_rows_inv by (auto split: if_splits)
  obtain n where n: "emit c = Inr n" and st': "st' = st1\<lparr>rows := append_cell n (rows st1), lastrow := t\<rparr>"
    using assms(2) t st1 by (cases "emit c") (simp_all add: sheet_step_def)
  show ?thesis
    using i1 stoi_range [OF t] by (simp add: st' sheet_inv_def)
qed

text \<open>C5: The cell loop keeps lastrow and rowid within the range of a 32-bit int, row_idx within the row-attribute column, and one emitted row per row read.\<close>

theorem sheet_loop_invariant:
  "sheet_inv row_r st \<Longrightarrow> sheet_loop emit ra row_r cs st = Inr st' \<Longrightarrow> sheet_inv row_r st'"
proof (induction cs arbitrary: st)
  case Nil
  then show ?case by simp
next
  case (Cons c cs)
  then obtain st1 where s1: "sheet_step emit ra row_r c st = Inr st1"
    by (cases "sheet_step emit ra row_r c st") auto
  with Cons.prems have "sheet_loop emit ra row_r cs st1 = Inr st'" by simp
  with sheet_step_inv [OF Cons.prems(1) s1] show ?case by (rule Cons.IH)
qed

text \<open>C4: When the inner row loop of xml_sheet_data returns, the current row identifier has reached the cell's row, row_idx has only grown, lastrow is untouched, and exactly the rows read were appended, each with its attributes and no cells.\<close>

theorem emit_rows_post:
  "emit_rows ra row_r t st = Inr st' \<Longrightarrow>
   t \<le> rowid st' \<and> row_idx st \<le> row_idx st' \<and> lastrow st' = lastrow st \<and>
   rows st' = rows st @ map (\<lambda>k. (row_attrs ra k, [])) [row_idx st..<row_idx st']"
proof (induction ra row_r t st rule: emit_rows.induct)
  case (1 ra row_r thisrow st)
  show ?case
  proof (cases "rowid st < thisrow \<and> row_idx st < length row_r")
    case True
    then obtain rid where s: "stoi (row_r ! row_idx st) = Inr rid"
      using "1.prems" by (cases "stoi (row_r ! row_idx st)") (simp_all add: emit_rows.simps [of ra row_r thisrow st])
    let ?st = "st\<lparr>rowid := rid, rows := rows st @ [(row_attrs ra (row_idx st), [])], row_idx := Suc (row_idx st)\<rparr>"
    have "emit_rows ra row_r thisrow ?st = Inr st'"
      using "1.prems" True s by (simp add: emit_rows.simps [of ra row_r thisrow st])
    then have "thisrow \<le> rowid st' \<and> row_idx ?st \<le> row_idx st' \<and> lastrow st' = lastrow ?st \<and>
               rows st' = rows ?st @ map (\<lambda>k. (row_attrs ra k, [])) [row_idx ?st..<row_idx st']"
      using "1.IH" [OF _ _ s] True by simp
    then show ?thesis by (simp add: upt_conv_Cons)
  next
    case False
    then show ?thesis
      using "1.prems" by (auto simp: emit_rows.simps [of ra row_r thisrow st] split: if_splits)
  qed
qed

text \<open>C33: The inner row loop makes progress to the cell's row: when the row-attribute identifiers convert and some entry at or after row_idx is at least the cell's row, the loop exits normally, at the latest after reading that entry.\<close>

theorem emit_rows_reaches:
  "map stoi row_r = map Inr rids \<Longrightarrow> row_idx st \<le> j \<Longrightarrow> j < length rids \<Longrightarrow> t \<le> rids ! j \<Longrightarrow>
   \<exists>st'. emit_rows ra row_r t st = Inr st' \<and> row_idx st' \<le> Suc j"
proof (induction ra row_r t st rule: emit_rows.induct)
  case (1 ra row_r thisrow st)
  show ?case
  proof (cases "rowid st < thisrow")
    case lt: True
    have lr: "length row_r = length rids" using "1.prems"(1) by (metis length_map)
    have i: "row_idx st < length row_r" using "1.prems"(2,3) lr by simp
    have s: "stoi (row_r ! row_idx st) = Inr (rids ! row_idx st)" using "1.prems"(1) i lr by (metis nth_map)
    let ?st = "st\<lparr>rowid := rids ! row_idx st, rows := rows st @ [(row_attrs ra (row_idx st), [])],
                   row_idx := Suc (row_idx st)\<rparr>"
    have e: "emit_rows ra row_r thisrow st = emit_rows ra row_r thisrow ?st"
      using lt i s by (simp add: emit_rows.simps [of ra row_r thisrow st])
    show ?thesis
    proof (cases "row_idx st = j")
      case True
      have "emit_rows ra row_r thisrow ?st = Inr ?st"
        using "1.prems"(4) True by (subst emit_rows.simps) simp
      then show ?thesis using True e by simp
    next
      case False
      then have "\<exists>st'. emit_rows ra row_r thisrow ?st = Inr st' \<and> row_idx st' \<le> Suc j"
        using "1.IH" [OF _ _ s] lt i "1.prems" by simp
      then show ?thesis using e by simp
    qed
  next
    case False
    then show ?thesis using "1.prems"(2) by (simp add: emit_rows.simps [of ra row_r thisrow st])
  qed
qed

lemma emit_rows_run:
  "row_idx st \<le> j \<Longrightarrow> j < length row_r \<Longrightarrow> rowid st < t \<Longrightarrow>
   list_all (\<lambda>k. \<exists>x. stoi (row_r ! k) = Inr x \<and> x < t) [row_idx st..<j] \<Longrightarrow>
   stoi (row_r ! j) = Inr rj \<Longrightarrow> t \<le> rj \<Longrightarrow>
   emit_rows ra row_r t st =
     Inr (st\<lparr>rowid := rj, rows := rows st @ map (\<lambda>k. (row_attrs ra k, [])) [row_idx st..<Suc j],
             row_idx := Suc j\<rparr>)"
proof (induction ra row_r t st rule: emit_rows.induct)
  case (1 ra row_r thisrow st)
  have i: "row_idx st < length row_r" using "1.prems"(1,2) by simp
  show ?case
  proof (cases "row_idx st = j")
    case True
    let ?st = "st\<lparr>rowid := rj, rows := rows st @ [(row_attrs ra j, [])], row_idx := Suc j\<rparr>"
    have "emit_rows ra row_r thisrow st = emit_rows ra row_r thisrow ?st"
      using "1.prems"(3,5) i True by (simp add: emit_rows.simps [of ra row_r thisrow st])
    also have "\<dots> = Inr ?st"
      using "1.prems"(6) by (subst emit_rows.simps) simp
    finally show ?thesis using True by simp
  next
    case False
    then have lt: "row_idx st < j" using "1.prems"(1) by simp
    then obtain x where s: "stoi (row_r ! row_idx st) = Inr x" and x: "x < thisrow"
      using "1.prems"(4) by (auto simp: upt_conv_Cons)
    let ?st = "st\<lparr>rowid := x, rows := rows st @ [(row_attrs ra (row_idx st), [])], row_idx := Suc (row_idx st)\<rparr>"
    have e: "emit_rows ra row_r thisrow st = emit_rows ra row_r thisrow ?st"
      using "1.prems"(3) i s by (simp add: emit_rows.simps [of ra row_r thisrow st])
    have "list_all (\<lambda>k. \<exists>x. stoi (row_r ! k) = Inr x \<and> x < thisrow) [Suc (row_idx st)..<j]"
      using "1.prems"(4) lt by (simp add: upt_conv_Cons)
    then have "emit_rows ra row_r thisrow ?st =
       Inr (?st\<lparr>rowid := rj, rows := rows ?st @ map (\<lambda>k. (row_attrs ra k, [])) [row_idx ?st..<Suc j],
             row_idx := Suc j\<rparr>)"
      using "1.IH" [OF "1.prems"(3) i s] lt x "1.prems"(2,5,6) by simp
    then show ?thesis using e lt by (simp add: upt_conv_Cons)
  qed
qed

text \<open>C28: A cell whose row is not yet emitted is attached to the first row of the row-attribute table, from row_idx on, whose identifier is at least the cell's row; every row before it is emitted empty. When the cell's row is missing from the table, that row has a larger identifier, so the cell lands in the wrong row.\<close>

theorem sheet_step_cell_in_next_row:
  assumes "stoi (c_row_r c) = Inr r" and "lastrow st < r" and "rowid st < r"
    and "row_idx st \<le> j" and "j < length row_r"
    and "list_all (\<lambda>k. \<exists>x. stoi (row_r ! k) = Inr x \<and> x < r) [row_idx st..<j]"
    and "stoi (row_r ! j) = Inr rj" and "r \<le> rj" and "emit c = Inr n"
  shows "sheet_step emit ra row_r c st =
           Inr (st\<lparr>rowid := rj, row_idx := Suc j, lastrow := r,
                   rows := rows st @ map (\<lambda>k. (row_attrs ra k, [])) [row_idx st..<j] @ [(row_attrs ra j, [n])]\<rparr>)"
  using emit_rows_run [OF assms(4,5,3,6,7,8), of ra] assms(1,2,4,9)
  by (simp add: sheet_step_def append_cell_def butlast_append)

lemma sheet_loop_append:
  "sheet_loop emit ra row_r (cs @ ds) st = rbind (sheet_loop emit ra row_r cs st) (sheet_loop emit ra row_r ds)"
  by (induction cs arbitrary: st) (simp_all add: rbind_def split: sum.split)

text \<open>C37: The code does not check that the cells are sorted by row, which the spec assumes: a cell whose row is not above the previous cell's row emits no row, is appended to the last row emitted (which belongs to a later row), and moves lastrow back to its own row.\<close>

theorem sheet_loop_unsorted_cell:
  assumes "sheet_loop emit ra row_r cs st = Inr st1" and "rows st1 \<noteq> []"
    and "stoi (c_row_r c) = Inr r" and "r \<le> lastrow st1" and "emit c = Inr n"
  shows "sheet_loop emit ra row_r (cs @ [c]) st =
           Inr (st1\<lparr>rows := butlast (rows st1) @ [(fst (last (rows st1)), snd (last (rows st1)) @ [n])],
                    lastrow := r\<rparr>)"
  using assms by (simp add: sheet_loop_append sheet_step_def append_cell_def)

lemma lookup_cols_missing:
  assumes "length (df_names d) = length (df_cols d)"
  shows "filter (\<lambda>m. m \<notin> set (df_names d)) names = n # ns \<Longrightarrow> lookup_cols d names = Inl (IndexOutOfBounds n)"
proof (induction names arbitrary: ns)
  case (Cons m ms)
  show ?case
  proof (cases "m \<in> set (df_names d)")
    case True
    then obtain c where "df_col d m = Inr c"
      using col_lookup_present [OF assms] by (auto simp: df_col_def)
    then show ?thesis using Cons True by simp
  next
    case False
    then show ?thesis using Cons.prems by (simp add: df_col_def col_lookup_missing)
  qed
qed simp

text \<open>C38: When the cell table lacks one of the eleven columns the code reads, xml_sheet_data fails with Rcpp's index_out_of_bounds for the first missing column in the order of lines 55--65, before any row is read.\<close>

theorem xml_sheet_data_missing_column:
  assumes "df_wf cc" and "filter (\<lambda>m. m \<notin> set (df_names cc)) cc_names = n # ns"
  shows "xml_sheet_data p ra cc = Inl (IndexOutOfBounds n)"
proof -
  have "length (df_names cc) = length (df_cols cc)" using assms(1) by (simp add: df_wf_def)
  then have "lookup_cols cc cc_names = Inl (IndexOutOfBounds n)" using assms(2) by (rule lookup_cols_missing)
  then show ?thesis by (simp add: xml_sheet_data_def)
qed

text \<open>C16: When the row-attribute table or the cell table has no row, write_worksheet writes the declaration, the prologue, <sheetData /> and the epilogue, and succeeds.\<close>

theorem write_worksheet_empty_sheet:
  assumes "df_nrow row_attr = 0 \<or> df_nrow cc = 0"
  shows "write_worksheet p prior post row_attr cc fname fs =
           (fs(fname \<mapsto> xml_decl @ prior @ ''<sheetData />'' @ post), Inr ())"
  using assms by (auto simp: write_worksheet_def)

text \<open>C17: When xml_sheet_data fails, write_worksheet leaves the file with the declaration, the prologue and <sheetData> only, and reports the error.\<close>

theorem write_worksheet_error_truncates:
  assumes "df_nrow row_attr \<noteq> 0" and "df_nrow cc \<noteq> 0" and "xml_sheet_data p row_attr cc = Inl e"
  shows "write_worksheet p prior post row_attr cc fname fs =
           (fs(fname \<mapsto> xml_decl @ prior @ ''<sheetData>''), Inl e)"
  using assms by (simp add: write_worksheet_def)

text \<open>C27: A row attribute holding the sentinel is written as an attribute with the sentinel as its value: only the empty string is treated as absent.\<close>

theorem row_attrs_sentinel:
  "(n, rnastring) \<in> set (row_attrs ra idx) \<longleftrightarrow>
   (\<exists>col. (n, col) \<in> set (zip (df_names ra) (df_cols ra)) \<and> col ! idx = rnastring)"
  by (auto simp: row_attrs_def rnastring_def image_iff intro: bexI [where x = "(n, col)" for n col])

text \<open>C29: A cell whose row number lies outside the 32-bit int range makes the cell loop fail with std::out_of_range: the row identifiers xml_sheet_data accepts are exactly those of a C++ int.\<close>

theorem sheet_step_row_out_of_range:
  assumes "\<not> (int_min \<le> i \<and> i \<le> int_max)"
  shows "sheet_step emit ra row_r (c\<lparr>c_row_r := int_to_dec i\<rparr>) st = Inl OutOfRange"
proof -
  have "stoi (int_to_dec i) = Inl OutOfRange"
    using assms stoi_int_to_dec [of i] by (simp only: if_False)
  then show ?thesis by (simp add: sheet_step_def)
qed

end
