(* ===== verification/PugiParse.thy ===== *)
theory PugiParse
  imports Pugi Stoi "HOL-Library.Code_Target_Nat"
begin

text \<open>
  The part of pugixml's parser (\<open>xml_document::load_string\<close>, pugixml 1.12) that reads what
  \<open>print_node\<close> writes: elements, attributes in either quote, character data, the five
  named entities and numeric character references. The conversions follow the parse
  options: \<open>parse_escapes\<close> (entities), \<open>parse_eol\<close> (a carriage return, and a carriage
  return with a line feed, becomes a line feed) and \<open>parse_wconv_attribute\<close> (white space in
  an attribute value becomes a space) and \<open>parse_cdata\<close> (a CDATA section becomes a
  node, otherwise it is skipped). Comments and processing instructions (the XML declaration
  among them) are skipped, as pugixml does when \<open>parse_comments\<close>, \<open>parse_pi\<close> and
  \<open>parse_declaration\<close> are not set, which holds for both option sets used here, and so are
  document type declarations outside every element (\<open>parse_doctype\<close> is not set). The
  last part proves that a tree printed by
  \<open>print_node\<close> parses back to itself when its names are XML names and its text survives
  escaping, and the conditions under which it does not.
\<close>

section \<open>Character classes\<close>

definition is_space :: "char \<Rightarrow> bool" where
  "is_space c \<longleftrightarrow> c \<in> {CHR '' '', CHR 0x09, CHR 0x0A, CHR 0x0D}"

definition is_start_symbol :: "char \<Rightarrow> bool" where
  "is_start_symbol c \<longleftrightarrow>
     (let n = (of_char c :: nat) in
      (65 \<le> n \<and> n \<le> 90) \<or> (97 \<le> n \<and> n \<le> 122) \<or> c = CHR ''_'' \<or> c = CHR '':'' \<or> 128 \<le> n)"

definition is_symbol :: "char \<Rightarrow> bool" where
  "is_symbol c \<longleftrightarrow> is_start_symbol c \<or> is_digit c \<or> c = CHR ''-'' \<or> c = CHR ''.''"

section \<open>Parse options\<close>

record parse_flags =
  pf_escapes :: bool
  pf_eol :: bool
  pf_wconv :: bool
  pf_cdata :: bool

definition parse_default :: parse_flags where
  "parse_default = \<lparr>pf_escapes = True, pf_eol = True, pf_wconv = True, pf_cdata = True\<rparr>"

definition is_parse_flags :: parse_flags where
  "is_parse_flags = \<lparr>pf_escapes = False, pf_eol = True, pf_wconv = True, pf_cdata = True\<rparr>"

section \<open>Character references and entities\<close>

definition hex_val :: "char \<Rightarrow> nat option" where
  "hex_val c =
     (let n = (of_char c :: nat) in
      if 48 \<le> n \<and> n \<le> 57 then Some (n - 48)
      else if 97 \<le> n \<and> n \<le> 102 then Some (n - 87)
      else if 65 \<le> n \<and> n \<le> 70 then Some (n - 55)
      else None)"

definition dec_val :: "char \<Rightarrow> nat option" where
  "dec_val c = (if is_digit c then Some (digit_val c) else None)"

fun scan_ref :: "(char \<Rightarrow> nat option) \<Rightarrow> nat \<Rightarrow> nat \<Rightarrow> string \<Rightarrow> nat option \<times> string" where
  "scan_ref dv b acc [] = (None, [])"
| "scan_ref dv b acc (c # s) =
     (if c = CHR '';'' then (Some acc, s)
      else (case dv c of
              None \<Rightarrow> (None, c # s)
            | Some d \<Rightarrow> scan_ref dv b ((b * acc + d) mod 2 ^ 32) s))"

definition utf8_encode :: "nat \<Rightarrow> string" where
  "utf8_encode u =
     (if u < 0x80 then [char_of u]
      else if u < 0x800 then [char_of (0xC0 + u div 64), char_of (0x80 + u mod 64)]
      else if u < 0x10000 then
        [char_of (0xE0 + u div 4096), char_of (0x80 + (u div 64) mod 64), char_of (0x80 + u mod 64)]
      else [char_of (or 0xF0 (u div 262144)), char_of (0x80 + (u div 4096) mod 64),
            char_of (0x80 + (u div 64) mod 64), char_of (0x80 + u mod 64)])"

definition named_entities :: "(string \<times> char) list" where
  "named_entities = [(''amp;'', CHR ''&''), (''apos;'', CHR 0x27), (''gt;'', CHR ''>''),
                     (''lt;'', CHR ''<''), (''quot;'', CHR 0x22)]"

fun match_prefix :: "string \<Rightarrow> string \<Rightarrow> nat" where
  "match_prefix (p # ps) (c # cs) = (if p = c then Suc (match_prefix ps cs) else 0)"
| "match_prefix _ _ = 0"

text \<open>After \<open>&#\<close>: a hexadecimal reference starts with \<open>x\<close>.\<close>

definition ref_start :: "string \<Rightarrow> (char \<Rightarrow> nat option) \<times> nat \<times> string" where
  "ref_start r = (if r \<noteq> [] \<and> hd r = CHR ''x'' then (hex_val, 16, tl r) else (dec_val, 10, r))"

text \<open>
  \<open>strconv_escape\<close>: \<open>s\<close> is the text after an \<open>&\<close>. The result is the output it stands
  for and the text where scanning resumes. A reference that does not complete is kept
  literally up to the character that broke it, and scanning resumes at that character.
\<close>

definition strconv_escape :: "string \<Rightarrow> string \<times> string" where
  "strconv_escape s =
     (if s \<noteq> [] \<and> hd s = CHR ''#'' then
        (let (dv, b, r1) = ref_start (tl s) in
         if r1 \<noteq> [] \<and> hd r1 = CHR '';'' then (CHR ''&'' # take (length s - length r1) s, r1)
         else (case scan_ref dv b 0 r1 of
                 (Some u, r2) \<Rightarrow> (utf8_encode u, r2)
               | (None, r2) \<Rightarrow> (CHR ''&'' # take (length s - length r2) s, r2)))
      else
        (case find (\<lambda>e. fst e = take (length (fst e)) s) named_entities of
           Some e \<Rightarrow> ([snd e], drop (length (fst e)) s)
         | None \<Rightarrow>
             (let k = Max (set (map (\<lambda>e. match_prefix (fst e) s) named_entities))
              in (CHR ''&'' # take k s, drop k s))))"

lemma scan_ref_rest: "length (snd (scan_ref dv b acc s)) \<le> length s"
  by (induction dv b acc s rule: scan_ref.induct) (auto split: option.split)

lemma ref_start_rest: "ref_start r = (dv, b, r1) \<Longrightarrow> length r1 \<le> length r"
  by (auto simp: ref_start_def split: if_splits)

lemma strconv_escape_rest: "length (snd (strconv_escape s)) \<le> length s"
proof (cases "s \<noteq> [] \<and> hd s = CHR ''#''")
  case True
  obtain dv b r1 where rs: "ref_start (tl s) = (dv, b, r1)" by (cases "ref_start (tl s)") auto
  have "length r1 \<le> length s" using ref_start_rest [OF rs] by simp
  moreover have "length (snd (scan_ref dv b 0 r1)) \<le> length r1" by (rule scan_ref_rest)
  ultimately show ?thesis
    using True rs by (auto simp: strconv_escape_def split: option.split prod.split)
next
  case False
  then show ?thesis by (auto simp: strconv_escape_def Let_def split: option.split)
qed

section \<open>Text and attribute value conversion\<close>

text \<open>End-of-line handling: a carriage return is followed by at most one line feed it absorbs.\<close>

definition skip_lf :: "string \<Rightarrow> string" where
  "skip_lf s = (if s \<noteq> [] \<and> hd s = CHR 0x0A then tl s else s)"

lemma length_skip_lf [simp]: "length (skip_lf s) \<le> length s"
  by (simp add: skip_lf_def)

function conv_pcdata :: "parse_flags \<Rightarrow> string \<Rightarrow> string" where
  "conv_pcdata fl [] = []"
| "conv_pcdata fl (c # s) =
     (if pf_eol fl \<and> c = CHR 0x0D then
        CHR 0x0A # conv_pcdata fl (skip_lf s)
      else if pf_escapes fl \<and> c = CHR ''&'' then
        (let e = strconv_escape s in fst e @ conv_pcdata fl (snd e))
      else c # conv_pcdata fl s)"
  by pat_completeness auto
termination
  by (relation "measure (\<lambda>(fl, s). length s)")
     (auto intro: le_less_trans [OF strconv_escape_rest] le_less_trans [OF length_skip_lf])

function conv_attr :: "parse_flags \<Rightarrow> string \<Rightarrow> string" where
  "conv_attr fl [] = []"
| "conv_attr fl (c # s) =
     (if pf_wconv fl \<and> is_space c then
        CHR '' '' # conv_attr fl (if c = CHR 0x0D then (skip_lf s) else s)
      else if pf_eol fl \<and> c = CHR 0x0D then
        CHR 0x0A # conv_attr fl (skip_lf s)
      else if pf_escapes fl \<and> c = CHR ''&'' then
        (let e = strconv_escape s in fst e @ conv_attr fl (snd e))
      else c # conv_attr fl s)"
  by pat_completeness auto
termination
  by (relation "measure (\<lambda>(fl, s). length s)")
     (auto intro: le_less_trans [OF strconv_escape_rest] le_less_trans [OF length_skip_lf])

text \<open>\<open>strconv_cdata\<close>: the value of a CDATA section only has its line ends converted.\<close>

definition conv_cdata :: "parse_flags \<Rightarrow> string \<Rightarrow> string" where
  "conv_cdata fl t = conv_pcdata (fl\<lparr>pf_escapes := False\<rparr>) t"

section \<open>Comments, CDATA sections and processing instructions\<close>

text \<open>
  \<open>PUGI__SCANFOR\<close> for a terminator \<open>m\<close>: the text before its first occurrence and the
  text after it, or failure at the end of the input.
\<close>

fun scan_for :: "string \<Rightarrow> string \<Rightarrow> (string \<times> string) option" where
  "scan_for m [] = None"
| "scan_for m (c # s) =
     (if take (length m) (c # s) = m then Some ([], drop (length m) (c # s))
      else (case scan_for m s of None \<Rightarrow> None | Some (t, r) \<Rightarrow> Some (c # t, r)))"

lemma scan_for_split: "scan_for m s = Some (t, r) \<Longrightarrow> s = t @ m @ r"
  by (induction m s arbitrary: t rule: scan_for.induct)
     (auto split: if_splits option.splits, metis append_take_drop_id)

lemma scan_for_rest: "scan_for m s = Some (t, r) \<Longrightarrow> m \<noteq> [] \<Longrightarrow> length r < length s"
  by (drule scan_for_split) simp

section \<open>Document type declarations\<close>

text \<open>
  \<open>parse_doctype_ignore\<close>, after \<open><![\<close>: nested \<open><![\<close> sections up to the matching
  \<open>]]>\<close>; the text after it.
\<close>

function dt_ignore :: "nat \<Rightarrow> string \<Rightarrow> string option" where
  "dt_ignore d s =
     (if s = [] then None
      else if take 3 s = ''<!['' then dt_ignore (Suc d) (drop 3 s)
      else if take 3 s = '']]>'' then (if d = 0 then Some (drop 3 s) else dt_ignore (d - 1) (drop 3 s))
      else dt_ignore d (tl s))"
  by pat_completeness auto
termination
  by (relation "measure (\<lambda>(d, s). length s)") auto

declare dt_ignore.simps [simp del]

text \<open>
  \<open>parse_doctype_primitive\<close>, at a quote or \<open><\<close>: a quoted string, a processing
  instruction or a comment, skipped whole; anything else is \<open>status_bad_doctype\<close>.
\<close>

definition dt_primitive :: "string \<Rightarrow> string option" where
  "dt_primitive s =
     (if hd s = CHR 0x22 \<or> hd s = CHR 0x27 then
        (let r = dropWhile (\<lambda>x. x \<noteq> hd s) (tl s) in if r = [] then None else Some (tl r))
      else if take 2 s = ''<?'' then
        (case scan_for ''?>'' (drop 2 s) of None \<Rightarrow> None | Some (_, r) \<Rightarrow> Some r)
      else if take 4 s = ''<!--'' then
        (case scan_for ''-->'' (drop 4 s) of None \<Rightarrow> None | Some (_, r) \<Rightarrow> Some r)
      else None)"

lemma dt_ignore_rest: "dt_ignore d s = Some r \<Longrightarrow> length r < length s"
proof (induction d s rule: dt_ignore.induct)
  case (1 d s)
  show ?case
  proof (cases "s = []")
    case False
    have "length (drop 3 s) < length s" "length (tl s) < length s" using False by simp_all
    then show ?thesis using "1.IH" "1.prems" False
      by (subst (asm) dt_ignore.simps) (auto split: if_splits)
  qed (use "1.prems" in \<open>simp add: dt_ignore.simps\<close>)
qed

lemma dt_primitive_rest:
  assumes "s \<noteq> []" and "dt_primitive s = Some r"
  shows "length r < length s"
proof (cases "hd s = CHR 0x22 \<or> hd s = CHR 0x27")
  case True
  define q where "q = dropWhile (\<lambda>x. x \<noteq> hd s) (tl s)"
  have "q \<noteq> [] \<and> r = tl q" using assms(2) True unfolding dt_primitive_def Let_def q_def [symmetric]
    by (simp split: if_splits)
  then have "length r < length q" by (simp add: length_tl_less)
  also have "length q < length s" unfolding q_def using assms(1) by (rule length_dropWhile_tl_less)
  finally show ?thesis .
next
  case False
  then obtain t where "scan_for ''?>'' (drop 2 s) = Some (t, r) \<or> scan_for ''-->'' (drop 4 s) = Some (t, r)"
    using assms(2) by (auto simp: dt_primitive_def split: if_splits option.splits)
  then show ?thesis
  proof
    assume "scan_for ''?>'' (drop 2 s) = Some (t, r)"
    then have "length r < length (drop 2 s)" by (rule scan_for_rest) simp
    then show ?thesis by simp
  next
    assume "scan_for ''-->'' (drop 4 s) = Some (t, r)"
    then have "length r < length (drop 4 s)" by (rule scan_for_rest) simp
    then show ?thesis by simp
  qed
qed

text \<open>
  \<open>parse_doctype_group\<close>, from the \<open>DOCTYPE\<close> keyword: the text up to the \<open>>\<close> that closes
  the declaration, counting nested \<open><!...>\<close> groups, skipping \<open><![...]]>\<close> sections and
  the primitives; the text after that \<open>>\<close>.
\<close>

function dt_group :: "nat \<Rightarrow> string \<Rightarrow> string option" where
  "dt_group d s =
     (if s = [] then None
      else if take 2 s = ''<!'' \<and> take 1 (drop 2 s) \<noteq> ''-'' then
        (if take 3 s = ''<!['' then
           (case dt_ignore 0 (drop 3 s) of None \<Rightarrow> None | Some r \<Rightarrow> dt_group d r)
         else dt_group (Suc d) (drop 2 s))
      else if hd s = CHR ''<'' \<or> hd s = CHR 0x22 \<or> hd s = CHR 0x27 then
        (case dt_primitive s of None \<Rightarrow> None | Some r \<Rightarrow> dt_group d r)
      else if hd s = CHR ''>'' then (if d = 0 then Some (tl s) else dt_group (d - 1) (tl s))
      else dt_group d (tl s))"
  by pat_completeness auto
termination
proof (relation "measure (\<lambda>(d, s). length s)")
  fix d s r
  assume "s \<noteq> []" "dt_ignore 0 (drop 3 s) = Some r"
  then show "((d, r), d, s) \<in> measure (\<lambda>(d, s). length s)"
    using dt_ignore_rest [of 0 "drop 3 s" r] by auto
next
  fix d s r
  assume "s \<noteq> []" "dt_primitive s = Some r"
  then show "((d, r), d, s) \<in> measure (\<lambda>(d, s). length s)"
    using dt_primitive_rest [of s r] by auto
qed (auto simp: length_tl_less)

declare dt_group.simps [simp del]

lemma dt_group_rest: "dt_group d s = Some r \<Longrightarrow> length r < length s"
proof (induction d s rule: dt_group.induct)
  case (1 d s)
  note eq = dt_group.simps [of d s]
  show ?case
  proof (cases "s = []")
    case True
    then show ?thesis using "1.prems" eq by simp
  next
    case ne: False
    have tl: "length (tl s) < length s" using ne by (rule length_tl_less)
    show ?thesis
    proof (cases "take 2 s = ''<!'' \<and> take 1 (drop 2 s) \<noteq> ''-''")
      case g: True
      show ?thesis
      proof (cases "take 3 s = ''<![''")
        case True
        then obtain r1 where i: "dt_ignore 0 (drop 3 s) = Some r1" and gr: "dt_group d r1 = Some r"
          using "1.prems" eq ne g by (auto split: option.splits)
        have "length r < length r1" using "1.IH"(1) [OF ne g True i gr] .
        moreover have "length r1 < length (drop 3 s)" using i by (rule dt_ignore_rest)
        ultimately show ?thesis by simp
      next
        case False
        then have "dt_group (Suc d) (drop 2 s) = Some r" using "1.prems" eq ne g by simp
        then have "length r < length (drop 2 s)" by (rule "1.IH"(2) [OF ne g False])
        then show ?thesis by simp
      qed
    next
      case ng: False
      show ?thesis
      proof (cases "hd s = CHR ''<'' \<or> hd s = CHR 0x22 \<or> hd s = CHR 0x27")
        case True
        then obtain r1 where p: "dt_primitive s = Some r1" and gr: "dt_group d r1 = Some r"
          using "1.prems" eq ne ng by (auto split: option.splits)
        have "length r < length r1" using "1.IH"(3) [OF ne ng True p gr] .
        moreover have "length r1 < length s" using ne p by (rule dt_primitive_rest)
        ultimately show ?thesis by simp
      next
        case np: False
        show ?thesis
        proof (cases "hd s = CHR ''>''")
          case gt: True
          have e: "dt_group d s = (if d = 0 then Some (tl s) else dt_group (d - 1) (tl s))"
            by (subst dt_group.simps) (simp only: if_not_P [OF ne] if_not_P [OF ng] if_not_P [OF np] if_P [OF gt])
          show ?thesis
          proof (cases "d = 0")
            case True
            then show ?thesis using "1.prems" e tl by simp
          next
            case False
            then have "dt_group (d - 1) (tl s) = Some r" using "1.prems" e by simp
            then show ?thesis using "1.IH"(4) [OF ne ng np gt False] tl by simp
          qed
        next
          case False
          have "dt_group d s = dt_group d (tl s)"
            by (subst dt_group.simps) (simp only: if_not_P [OF ne] if_not_P [OF ng] if_not_P [OF np] if_not_P [OF False])
          then have "dt_group d (tl s) = Some r" using "1.prems" by simp
          then show ?thesis using "1.IH"(5) [OF ne ng np False] tl by simp
        qed
      qed
    qed
  qed
qed

section \<open>Markup declarations: comments, CDATA sections and document types\<close>

text \<open>
  \<open>parse_exclamation\<close>, after \<open><!\<close>: a comment is skipped up to \<open>-->\<close>; a CDATA section
  up to \<open>]]>\<close> is a node under \<open>parse_cdata\<close> and skipped otherwise; a document type
  declaration is skipped (\<open>parse_doctype\<close> is not set) and is only allowed outside every
  element (\<open>no_parent\<close>). The result is the node, if any, and the text after the construct.
\<close>

definition parse_excl :: "parse_flags \<Rightarrow> bool \<Rightarrow> string \<Rightarrow> (xnode option \<times> string) option" where
  "parse_excl fl no_parent s =
     (if take 2 s = ''--'' then
        (case scan_for ''-->'' (drop 2 s) of None \<Rightarrow> None | Some (_, r) \<Rightarrow> Some (None, r))
      else if take 7 s = ''[CDATA['' then
        (case scan_for '']]>'' (drop 7 s) of
           None \<Rightarrow> None
         | Some (t, r) \<Rightarrow> Some (if pf_cdata fl then Some (XCdata (conv_cdata fl t)) else None, r))
      else if take 7 s = ''DOCTYPE'' \<and> no_parent then
        (case dt_group 0 s of None \<Rightarrow> None | Some r \<Rightarrow> Some (None, r))
      else None)"

text \<open>
  \<open>parse_question\<close>, after \<open><?\<close>: the target is a name; without \<open>parse_pi\<close> and
  \<open>parse_declaration\<close> the instruction is skipped up to \<open>?>\<close>.
\<close>

definition skip_pi :: "string \<Rightarrow> string option" where
  "skip_pi s =
     (if s = [] \<or> \<not> is_start_symbol (hd s) then None
      else (case scan_for ''?>'' (dropWhile is_symbol s) of None \<Rightarrow> None | Some (_, r) \<Rightarrow> Some r))"

lemma parse_excl_rest: "parse_excl fl no_parent s = Some (x, r) \<Longrightarrow> length r < length s"
  by (auto simp: parse_excl_def split: if_splits option.splits dest!: scan_for_rest dt_group_rest)

lemma skip_pi_rest: "skip_pi s = Some r \<Longrightarrow> length r < length s"
  using length_dropWhile_le [of is_symbol s]
  by (auto simp: skip_pi_def split: if_splits option.splits dest!: scan_for_rest)

section \<open>Start tags\<close>

text \<open>
  One attribute \<open>name = "value"\<close> (either quote) at a name-start character: the attribute,
  its value converted, and the text after the closing quote. An attribute value must not
  be followed directly by a name character.
\<close>

definition parse_attr :: "parse_flags \<Rightarrow> string \<Rightarrow> ((string \<times> string) \<times> string) option" where
  "parse_attr fl s =
     (let nm = takeWhile is_symbol s; s2 = dropWhile is_space (dropWhile is_symbol s) in
      if s2 = [] \<or> hd s2 \<noteq> CHR ''='' then None
      else
        (let s3 = dropWhile is_space (tl s2) in
         if s3 = [] \<or> (hd s3 \<noteq> CHR 0x22 \<and> hd s3 \<noteq> CHR 0x27) then None
         else
           (let q = hd s3; s4 = dropWhile (\<lambda>x. x \<noteq> q) (tl s3) in
            if s4 = [] \<or> (tl s4 \<noteq> [] \<and> is_start_symbol (hd (tl s4))) then None
            else Some ((nm, conv_attr fl (takeWhile (\<lambda>x. x \<noteq> q) (tl s3))), tl s4))))"

lemma parse_attr_rest:
  assumes "parse_attr fl s = Some (a, r)"
  shows "length r < length s"
proof -
  define s2 where "s2 = dropWhile is_space (dropWhile is_symbol s)"
  define s3 where "s3 = dropWhile is_space (tl s2)"
  define s4 where "s4 = dropWhile (\<lambda>x. x \<noteq> hd s3) (tl s3)"
  have ne: "s2 \<noteq> []" "s3 \<noteq> []" "s4 \<noteq> []" and r: "r = tl s4"
    using assms unfolding parse_attr_def Let_def s2_def [symmetric] s3_def [symmetric] s4_def [symmetric]
    by (simp_all split: if_splits)
  have "length (tl s4) < length s4" using ne(3) by (rule length_tl_less)
  also have "length s4 < length s3" unfolding s4_def using ne(2) by (rule length_dropWhile_tl_less)
  also have "length s3 < length s2" unfolding s3_def using ne(1) by (rule length_dropWhile_tl_less)
  also have "length s2 \<le> length s"
    unfolding s2_def by (metis le_trans length_dropWhile_le)
  finally show ?thesis by (simp add: r)
qed

text \<open>
  The attribute list of a start tag (\<open>LOC_ATTRIBUTES\<close>), after the element name: white
  space and attributes until \<open>>\<close> or \<open>/>\<close>. The result is the attributes in document
  order, whether the tag closed itself, and the text after the tag.
\<close>

function parse_attrs :: "parse_flags \<Rightarrow> string \<Rightarrow> (attrs \<times> bool \<times> string) option" where
  "parse_attrs fl s =
     (let s1 = dropWhile is_space s in
      if s1 = [] then None
      else if hd s1 = CHR ''/'' then
        (if tl s1 \<noteq> [] \<and> hd (tl s1) = CHR ''>'' then Some ([], True, tl (tl s1)) else None)
      else if hd s1 = CHR ''>'' then Some ([], False, tl s1)
      else if \<not> is_start_symbol (hd s1) then None
      else
        (case parse_attr fl s1 of
           None \<Rightarrow> None
         | Some (a, r) \<Rightarrow>
             (case parse_attrs fl r of
                None \<Rightarrow> None
              | Some (as, cl, r') \<Rightarrow> Some (a # as, cl, r'))))"
  by pat_completeness auto
termination
proof (relation "measure (\<lambda>(fl, s). length s)")
  fix fl s s1 x a r
  assume "s1 = dropWhile is_space s" "parse_attr fl s1 = Some x" "(a, r) = x"
  then show "((fl, r), fl, s) \<in> measure (\<lambda>(fl, s). length s)"
    using parse_attr_rest [of fl s1 a r] length_dropWhile_le [of is_space s] by simp
qed auto

declare parse_attrs.simps [simp del]

lemma parse_attrs_attr:
  assumes "dropWhile is_space s = s1" "s1 \<noteq> []" "hd s1 \<noteq> CHR ''/''" "hd s1 \<noteq> CHR ''>''"
    "is_start_symbol (hd s1)"
  shows "parse_attrs fl s =
           (case parse_attr fl s1 of
              None \<Rightarrow> None
            | Some (a, r) \<Rightarrow>
                (case parse_attrs fl r of None \<Rightarrow> None | Some (as, cl, r') \<Rightarrow> Some (a # as, cl, r')))"
  using assms by (subst parse_attrs.simps) (simp add: Let_def del: dropWhile_eq_Nil_conv)

lemma parse_attrs_rest: "parse_attrs fl s = Some (as, cl, r) \<Longrightarrow> length r < length s"
proof (induction fl s arbitrary: as cl r rule: parse_attrs.induct)
  case (1 fl s)
  let ?s1 = "dropWhile is_space s"
  have l1: "length ?s1 \<le> length s" by (rule length_dropWhile_le)
  show ?case
  proof (cases "?s1 = [] \<or> hd ?s1 = CHR ''/'' \<or> hd ?s1 = CHR ''>'' \<or> \<not> is_start_symbol (hd ?s1)")
    case True
    then show ?thesis using "1.prems" l1
      by (cases ?s1) (auto simp: parse_attrs.simps [of fl s] Let_def split: if_splits)
  next
    case False
    with "1.prems" obtain a r1 as' where
      p1: "parse_attr fl ?s1 = Some (a, r1)" and p2: "parse_attrs fl r1 = Some (as', cl, r)"
      by (auto simp: parse_attrs_attr [OF refl] split: option.splits)
    have "length r < length r1" using "1.IH" [OF refl _ _ _ _ p1 refl p2] False by simp
    also have "\<dots> < length ?s1" using p1 by (rule parse_attr_rest)
    finally show ?thesis using l1 by simp
  qed
qed

section \<open>The document parser\<close>

text \<open>
  \<open>xml_parser::parse_tree\<close> keeps a cursor to the innermost open element; here the
  open elements are a stack of frames (name, attributes, children so far), innermost
  first, beside the finished top-level nodes. A node is appended to the innermost open
  element, or to the document when none is open.
\<close>

type_synonym frame = "string \<times> attrs \<times> xnode list"

definition add_node :: "xnode \<Rightarrow> frame list \<times> xnode list \<Rightarrow> frame list \<times> xnode list" where
  "add_node n st =
     (case fst st of
        [] \<Rightarrow> ([], snd st @ [n])
      | (nm, as, cs) # stk \<Rightarrow> ((nm, as, cs @ [n]) # stk, snd st))"

text \<open>A start tag, after its \<open><\<close>: the name, the attributes, whether it closed itself.\<close>

definition start_tag :: "parse_flags \<Rightarrow> string \<Rightarrow> (string \<times> attrs \<times> bool \<times> string) option" where
  "start_tag fl s =
     (case parse_attrs fl (dropWhile is_symbol s) of
        None \<Rightarrow> None
      | Some (as, cl, r) \<Rightarrow> Some (takeWhile is_symbol s, as, cl, r))"

text \<open>An end tag, after its \<open></\<close>: the name must be that of the open element \<open>nm\<close>.\<close>

definition end_tag :: "string \<Rightarrow> string \<Rightarrow> string option" where
  "end_tag nm s =
     (let r = dropWhile is_space (dropWhile is_symbol s) in
      if takeWhile is_symbol s = nm \<and> r \<noteq> [] \<and> hd r = CHR ''>'' then Some (tl r) else None)"

lemma start_tag_rest: "start_tag fl s = Some (nm, as, cl, r) \<Longrightarrow> length r < length s"
  using length_dropWhile_le [of is_symbol s]
  by (auto simp: start_tag_def split: option.splits dest!: parse_attrs_rest)

lemma end_tag_rest:
  assumes "end_tag nm s = Some r"
  shows "length r < length s"
proof -
  define r1 where "r1 = dropWhile is_space (dropWhile is_symbol s)"
  have "r1 \<noteq> []" and r: "r = tl r1"
    using assms by (simp_all add: end_tag_def Let_def r1_def [symmetric] split: if_splits)
  then have "length r < length r1" by (simp add: length_tl_less)
  also have "length r1 \<le> length s" unfolding r1_def by (metis le_trans length_dropWhile_le)
  finally show ?thesis .
qed

text \<open>
  One step of \<open>parse_tree\<close> per construct: a start tag (pushed, or added when it closes
  itself), an end tag (which must match the open element; the element is popped and
  added to its parent), or character data up to the next \<open><\<close>. Character data that is
  only white space is skipped (\<open>parse_ws_pcdata\<close> is not set), as is any character data
  outside every element; a comment, CDATA section or document type declaration after
  \<open><!\<close> (\<open>parse_excl\<close>, whose CDATA node is added even outside every element, as
  \<open>PUGI__PUSHNODE\<close> does, and which refuses a document type declaration inside an
  element), a processing instruction after \<open><?\<close> (\<open>skip_pi\<close>). Any other \<open><\<close> fails.
\<close>

function parse_tree :: "parse_flags \<Rightarrow> frame list \<times> xnode list \<Rightarrow> string \<Rightarrow> xnode list option" where
  "parse_tree fl st s =
     (if s = [] then (if fst st = [] then Some (snd st) else None)
      else if hd s = CHR ''<'' then
        (if tl s \<noteq> [] \<and> is_start_symbol (hd (tl s)) then
           (case start_tag fl (tl s) of
              None \<Rightarrow> None
            | Some (nm, as, cl, r) \<Rightarrow>
                if cl then parse_tree fl (add_node (XElem nm as []) st) r
                else parse_tree fl ((nm, as, []) # fst st, snd st) r)
         else if tl s \<noteq> [] \<and> hd (tl s) = CHR ''/'' then
           (case fst st of
              [] \<Rightarrow> None
            | (nm, as, cs) # stk \<Rightarrow>
                (case end_tag nm (tl (tl s)) of
                   None \<Rightarrow> None
                 | Some r \<Rightarrow> parse_tree fl (add_node (XElem nm as cs) (stk, snd st)) r))
         else if tl s \<noteq> [] \<and> hd (tl s) = CHR ''!'' then
           (case parse_excl fl (fst st = []) (tl (tl s)) of
              None \<Rightarrow> None
            | Some (None, r) \<Rightarrow> parse_tree fl st r
            | Some (Some n, r) \<Rightarrow> parse_tree fl (add_node n st) r)
         else if tl s \<noteq> [] \<and> hd (tl s) = CHR ''?'' then
           (case skip_pi (tl (tl s)) of None \<Rightarrow> None | Some r \<Rightarrow> parse_tree fl st r)
         else None)
      else
        (let t = takeWhile (\<lambda>x. x \<noteq> CHR ''<'') s; r = dropWhile (\<lambda>x. x \<noteq> CHR ''<'') s in
         if fst st = [] \<or> list_all is_space t then parse_tree fl st r
         else parse_tree fl (add_node (XPcdata (conv_pcdata fl t)) st) r))"
  by pat_completeness auto
termination
proof (relation "measure (\<lambda>(fl, st, s). length s)")
  fix fl st s x nm y as z cl r
  assume "s \<noteq> []" "start_tag fl (tl s) = Some x" "(nm, y) = x" "(as, z) = y" "(cl, r) = z"
  then show "((fl, add_node (XElem nm as []) st, r), fl, st, s) \<in> measure (\<lambda>(fl, st, s). length s)"
    and "((fl, ((nm, as, []) # fst st, snd st), r), fl, st, s) \<in> measure (\<lambda>(fl, st, s). length s)"
    using start_tag_rest [of fl "tl s" nm as cl r] length_tl_less [of s] by auto
next
  fix fl st s x stk nm y as cs r
  assume "s \<noteq> []" "tl s \<noteq> [] \<and> hd (tl s) = CHR ''/''" "end_tag nm (tl (tl s)) = Some r"
  then show "((fl, add_node (XElem nm as cs) (stk, snd st), r), fl, st, s) \<in> measure (\<lambda>(fl, st, s). length s)"
    using end_tag_rest [of nm "tl (tl s)" r] length_tl_less [of s] length_tl_less [of "tl s"] by auto
next
  fix fl s x y r and st :: "frame list \<times> xnode list"
  assume "s \<noteq> []" "parse_excl fl (fst st = []) (tl (tl s)) = Some x" "(y, r) = x"
  then show "((fl, st, r), fl, st, s) \<in> measure (\<lambda>(fl, st, s). length s)"
    and "\<And>n. ((fl, add_node n st, r), fl, st, s) \<in> measure (\<lambda>(fl, st, s). length s)"
    using parse_excl_rest [of fl "fst st = []" "tl (tl s)" y r] length_tl_less [of s] length_tl_less [of "tl s"]
    by (cases "tl s"; auto)+
next
  fix fl st s r
  assume "s \<noteq> []" "skip_pi (tl (tl s)) = Some r"
  then show "((fl, st, r), fl, st, s) \<in> measure (\<lambda>(fl, st, s). length s)"
    using skip_pi_rest [of "tl (tl s)" r] length_tl_less [of s] length_tl_less [of "tl s"]
    by (cases "tl s") auto
next
  fix fl st s t r
  assume "s \<noteq> []" "hd s \<noteq> CHR ''<''" "r = dropWhile (\<lambda>x. x \<noteq> CHR ''<'') s"
  then have "length r < length s"
    using length_dropWhile_le [of "\<lambda>x. x \<noteq> CHR ''<''" "tl s"] by (cases s) auto
  then show "((fl, st, r), fl, st, s) \<in> measure (\<lambda>(fl, st, s). length s)"
    and "((fl, add_node (XPcdata (conv_pcdata fl t)) st, r), fl, st, s) \<in> measure (\<lambda>(fl, st, s). length s)"
    by auto
qed auto

declare parse_tree.simps [simp del]

fun is_element :: "xnode \<Rightarrow> bool" where
  "is_element (XElem _ _ _) = True"
| "is_element (XPcdata _) = False"
| "is_element (XCdata _) = False"

fun is_text :: "xnode \<Rightarrow> bool" where
  "is_text (XPcdata _) = True"
| "is_text _ = False"

text \<open>\<open>parse_skip_bom\<close>: a UTF-8 byte order mark at the start of the text is skipped.\<close>

definition skip_bom :: "string \<Rightarrow> string" where
  "skip_bom s = (if take 3 s = [CHR 0xEF, CHR 0xBB, CHR 0xBF] then drop 3 s else s)"

text \<open>
  \<open>xml_document::load_string\<close> (UTF-8, no conversion): after the byte order mark, the
  document must close every element and hold at least one element among its top-level
  nodes (\<open>has_element_node_siblings\<close>, \<open>status_no_document_element\<close> otherwise).
\<close>

definition parse_doc :: "parse_flags \<Rightarrow> string \<Rightarrow> xnode list option" where
  "parse_doc fl s =
     (case parse_tree fl ([], []) (skip_bom s) of
        None \<Rightarrow> None
      | Some ns \<Rightarrow> if list_ex is_element ns then Some ns else None)"

section \<open>What prints and parses back\<close>

text \<open>
  The conditions under which a tree printed by \<open>print_node\<close> is parsed back to itself:
  names are XML names, attribute values survive quoting and the parser's value
  conversion, text survives escaping and conversion, is not only white space, and two
  text nodes are never adjacent (the parser would read them as one); a CDATA value does
  not hold \<open>]]>\<close>, survives line-end conversion, and the options keep CDATA nodes.
\<close>

definition name_ok :: "string \<Rightarrow> bool" where
  "name_ok n \<longleftrightarrow> n \<noteq> [] \<and> is_start_symbol (hd n) \<and> list_all is_symbol n"

definition attr_ok :: "bool \<Rightarrow> parse_flags \<Rightarrow> string \<times> string \<Rightarrow> bool" where
  "attr_ok esc fl a \<longleftrightarrow>
     name_ok (fst a) \<and> CHR 0x22 \<notin> set (text_out esc esc_attr_char (snd a)) \<and>
     conv_attr fl (text_out esc esc_attr_char (snd a)) = snd a"

definition text_ok :: "bool \<Rightarrow> parse_flags \<Rightarrow> string \<Rightarrow> bool" where
  "text_ok esc fl s \<longleftrightarrow>
     (let t = text_out esc esc_text_char s in
      CHR ''<'' \<notin> set t \<and> \<not> list_all is_space t \<and> conv_pcdata fl t = s)"

fun no_adj_text :: "xnode list \<Rightarrow> bool" where
  "no_adj_text (XPcdata _ # XPcdata _ # _) = False"
| "no_adj_text (_ # ns) = no_adj_text ns"
| "no_adj_text [] = True"

fun node_ok :: "bool \<Rightarrow> parse_flags \<Rightarrow> xnode \<Rightarrow> bool" where
  "node_ok esc fl (XPcdata s) = text_ok esc fl s"
| "node_ok esc fl (XCdata s) = (pf_cdata fl \<and> scan_for '']]>'' s = None \<and> conv_cdata fl s = s)"
| "node_ok esc fl (XElem n as cs) =
     (name_ok n \<and> list_all (attr_ok esc fl) as \<and> no_adj_text cs \<and> (\<forall>c \<in> set cs. node_ok esc fl c))"

text \<open>
  Without \<open>parse_ws_pcdata\<close> the parser drops character data that is only white space.
  \<open>node_ok_ws\<close> admits such text where \<open>node_ok\<close> does not, and \<open>strip_blank\<close> is the tree
  the parser gives back for it: the same tree without those text nodes.
\<close>

fun blank_text :: "xnode \<Rightarrow> bool" where
  "blank_text (XPcdata s) = list_all is_space s"
| "blank_text _ = False"

fun strip_blank :: "xnode \<Rightarrow> xnode" where
  "strip_blank (XElem n as cs) = XElem n as (map strip_blank (filter (\<lambda>c. \<not> blank_text c) cs))"
| "strip_blank n = n"

fun node_ok_ws :: "bool \<Rightarrow> parse_flags \<Rightarrow> xnode \<Rightarrow> bool" where
  "node_ok_ws esc fl (XPcdata s) = (list_all is_space s \<or> text_ok esc fl s)"
| "node_ok_ws esc fl (XCdata s) = node_ok esc fl (XCdata s)"
| "node_ok_ws esc fl (XElem n as cs) =
     (name_ok n \<and> list_all (attr_ok esc fl) as \<and> no_adj_text cs \<and> (\<forall>c \<in> set cs. node_ok_ws esc fl c))"

section \<open>Lemmas: escaping and its decoding\<close>



lemma strconv_escape_named:
  "strconv_escape (CHR ''a'' # CHR ''m'' # CHR ''p'' # CHR '';'' # r) = ([CHR ''&''], r)"
  "strconv_escape (CHR ''l'' # CHR ''t'' # CHR '';'' # r) = ([CHR ''<''], r)"
  "strconv_escape (CHR ''g'' # CHR ''t'' # CHR '';'' # r) = ([CHR ''>''], r)"
  "strconv_escape (CHR ''q'' # CHR ''u'' # CHR ''o'' # CHR ''t'' # CHR '';'' # r) = ([CHR 0x22], r)"
  by (simp_all add: strconv_escape_def named_entities_def)

lemma dec_val_digit [simp]: "(d::nat) < 10 \<Longrightarrow> dec_val (char_of (48 + d)) = Some d"
  by (simp add: dec_val_def)

lemma digit_char_ne: "(d::nat) < 10 \<Longrightarrow> \<not> is_digit c \<Longrightarrow> char_of (48 + d) \<noteq> c"
  using digit_char [of d] by metis

lemma scan_ref_two_digits:
  assumes "d1 < 10" "d2 < 10"
  shows "scan_ref dec_val 10 0 (char_of (48 + d1) # char_of (48 + d2) # CHR '';'' # r) = (Some (10 * d1 + d2), r)"
proof -
  have "\<not> is_digit (CHR '';'')" by (simp add: is_digit_def)
  then have "char_of (48 + d1) \<noteq> CHR '';''" "char_of (48 + d2) \<noteq> CHR '';''"
    using assms by (simp_all add: digit_char_ne)
  moreover have "10 * d1 + d2 < 2 ^ 32" using assms by simp
  ultimately show ?thesis using assms by simp
qed

lemma strconv_escape_char_ref:
  assumes "(of_char c :: nat) < 32"
  shows "strconv_escape (tl (char_ref c) @ r) = ([c], r)"
proof -
  let ?n = "of_char c :: nat"
  have "\<not> is_digit (CHR ''x'')" "\<not> is_digit (CHR '';'')" by (simp_all add: is_digit_def)
  then have x: "char_of (48 + ?n div 10) \<noteq> CHR ''x''" "char_of (48 + ?n div 10) \<noteq> CHR '';''"
    using assms by (simp_all add: digit_char_ne)
  have sc: "scan_ref dec_val 10 0 (char_of (48 + ?n div 10) # char_of (48 + ?n mod 10) # CHR '';'' # r) = (Some ?n, r)"
    using scan_ref_two_digits [of "?n div 10" "?n mod 10" r] assms by simp
  have "tl (char_ref c) @ r = CHR ''#'' # char_of (48 + ?n div 10) # char_of (48 + ?n mod 10) # CHR '';'' # r"
    by (simp add: char_ref_def Let_def)
  then show ?thesis
    using assms x by (simp add: strconv_escape_def ref_start_def utf8_encode_def sc del: scan_ref.simps)
qed

lemma char_ref_Cons: "char_ref c = CHR ''&'' # tl (char_ref c)"
  by (simp add: char_ref_def Let_def)

lemma conv_attr_esc_char:
  assumes "pf_escapes fl"
  shows "conv_attr fl (esc_attr_char c @ r) = c # conv_attr fl r"
proof (cases "c = CHR ''&'' \<or> c = CHR ''<'' \<or> c = CHR 0x22")
  case True
  with assms show ?thesis by (auto simp: esc_attr_char_def strconv_escape_named is_space_def)
next
  case False
  show ?thesis
  proof (cases "(of_char c :: nat) < 32")
    case True
    with False have "esc_attr_char c = char_ref c" by (simp add: esc_attr_char_def)
    then have "esc_attr_char c @ r = CHR ''&'' # (tl (char_ref c) @ r)"
      by (metis append_Cons char_ref_Cons)
    with True False assms show ?thesis by (simp add: strconv_escape_char_ref is_space_def)
  next
    case big: False
    then have "c = CHR '' '' \<or> \<not> is_space c" "c \<noteq> CHR 0x0D"
      by (auto simp: is_space_def)
    with big False assms show ?thesis by (auto simp: esc_attr_char_def)
  qed
qed

lemma conv_attr_escaped: "pf_escapes fl \<Longrightarrow> conv_attr fl (concat (map esc_attr_char v)) = v"
  by (induction v) (simp_all add: conv_attr_esc_char)

lemma conv_pcdata_esc_char:
  assumes "pf_escapes fl" and "pf_eol fl \<longrightarrow> c \<noteq> CHR 0x0D"
  shows "conv_pcdata fl (esc_text_char c @ r) = c # conv_pcdata fl r"
proof (cases "c = CHR ''&'' \<or> c = CHR ''<'' \<or> c = CHR ''>''")
  case True
  with assms show ?thesis by (auto simp: esc_text_char_def strconv_escape_named)
next
  case False
  show ?thesis
  proof (cases "(of_char c :: nat) < 32 \<and> c \<notin> {CHR 0x09, CHR 0x0A, CHR 0x0D}")
    case True
    with False have "esc_text_char c = char_ref c" by (simp add: esc_text_char_def)
    then have "esc_text_char c @ r = CHR ''&'' # (tl (char_ref c) @ r)"
      by (metis append_Cons char_ref_Cons)
    with True False assms show ?thesis by (simp add: strconv_escape_char_ref)
  next
    case raw: False
    with False assms show ?thesis by (auto simp: esc_text_char_def)
  qed
qed

lemma conv_pcdata_escaped:
  "pf_escapes fl \<Longrightarrow> (pf_eol fl \<longrightarrow> CHR 0x0D \<notin> set s) \<Longrightarrow> conv_pcdata fl (concat (map esc_text_char s)) = s"
  by (induction s) (auto simp: conv_pcdata_esc_char)

section \<open>Lemmas: parsing printed trees\<close>

lemma start_symbol_not_space: "is_start_symbol c \<Longrightarrow> \<not> is_space c"
  by (auto simp: is_start_symbol_def is_space_def Let_def)

lemma not_symbol [simp]:
  "\<not> is_symbol CHR ''=''" "\<not> is_symbol CHR '' ''" "\<not> is_symbol CHR ''/''" "\<not> is_symbol CHR ''>''"
  "\<not> is_symbol CHR 0x22" "\<not> is_symbol CHR ''?''"
  by (simp_all add: is_symbol_def is_start_symbol_def is_digit_def)

lemma not_start_symbol [simp]:
  "\<not> is_start_symbol CHR '' ''" "\<not> is_start_symbol CHR ''/''" "\<not> is_start_symbol CHR ''>''"
  "\<not> is_start_symbol CHR ''<''" "\<not> is_start_symbol CHR ''!''"
  "\<not> is_start_symbol CHR ''?''"
  by (simp_all add: is_start_symbol_def)

lemma not_space [simp]:
  "\<not> is_space CHR ''=''" "\<not> is_space CHR 0x22" "\<not> is_space CHR ''/''" "\<not> is_space CHR ''>''"
  "\<not> is_space CHR ''<''" "is_space CHR '' ''"
  by (simp_all add: is_space_def)

lemma parse_attr_print:
  assumes ok: "attr_ok esc fl a" and r: "r = [] \<or> \<not> is_start_symbol (hd r)"
  shows "parse_attr fl (fst a @ CHR ''='' # CHR 0x22 # text_out esc esc_attr_char (snd a) @ CHR 0x22 # r) =
         Some (a, r)"
proof -
  let ?v = "text_out esc esc_attr_char (snd a)"
  have n: "list_all is_symbol (fst a)" and q: "CHR 0x22 \<notin> set ?v" and c: "conv_attr fl ?v = snd a"
    using ok by (simp_all add: attr_ok_def name_ok_def)
  have tv: "takeWhile (\<lambda>x. x \<noteq> CHR 0x22) (?v @ CHR 0x22 # r) = ?v"
    and dv: "dropWhile (\<lambda>x. x \<noteq> CHR 0x22) (?v @ CHR 0x22 # r) = CHR 0x22 # r"
  proof -
    have "list_all (\<lambda>x. x \<noteq> CHR 0x22) ?v" using q by (auto simp: list_all_iff)
    then show "takeWhile (\<lambda>x. x \<noteq> CHR 0x22) (?v @ CHR 0x22 # r) = ?v"
      and "dropWhile (\<lambda>x. x \<noteq> CHR 0x22) (?v @ CHR 0x22 # r) = CHR 0x22 # r"
      by (simp_all add: takeWhile_append_stop dropWhile_append_stop)
  qed
  show ?thesis
    using n r tv dv c
    by (simp add: parse_attr_def takeWhile_append_stop dropWhile_append_stop Let_def)
qed

lemma print_attr_Cons: "print_attr esc a = CHR '' '' # fst a @ CHR ''='' # CHR 0x22 # text_out esc esc_attr_char (snd a) @ [CHR 0x22]"
  by (simp add: print_attr_def)

lemma parse_attrs_print:
  assumes "list_all (attr_ok esc fl) as"
    and tail: "(tail = CHR ''/'' # CHR ''>'' # r \<and> cl) \<or> (tail = CHR ''>'' # r \<and> \<not> cl)"
  shows "parse_attrs fl (concat (map (print_attr esc) as) @ tail) = Some (as, cl, r)"
  using assms(1)
proof (induction as)
  case Nil
  from tail show ?case by (auto simp: parse_attrs.simps [of fl tail])
next
  case (Cons a as)
  let ?rest = "concat (map (print_attr esc) as) @ tail"
  let ?s1 = "fst a @ CHR ''='' # CHR 0x22 # text_out esc esc_attr_char (snd a) @ CHR 0x22 # ?rest"
  have ok: "attr_ok esc fl a" and oks: "list_all (attr_ok esc fl) as" using Cons.prems by simp_all
  then have n: "fst a \<noteq> []" "is_start_symbol (hd (fst a))" by (simp_all add: attr_ok_def name_ok_def)
  have s1: "dropWhile is_space (concat (map (print_attr esc) (a # as)) @ tail) = ?s1"
    using n start_symbol_not_space [of "hd (fst a)"] by (cases "fst a") (simp_all add: print_attr_Cons)
  have h: "hd ?s1 \<noteq> CHR ''/''" "hd ?s1 \<noteq> CHR ''>''" "is_start_symbol (hd ?s1)"
    using n by (auto simp: neq_Nil_conv)
  have "?rest = [] \<or> \<not> is_start_symbol (hd ?rest)"
    using tail by (cases as) (auto simp: print_attr_Cons)
  then have "parse_attr fl ?s1 = Some (a, ?rest)" by (rule parse_attr_print [OF ok])
  then show ?case
    using parse_attrs_attr [OF s1 _ h, of fl] Cons.IH [OF oks] by simp
qed

lemma no_adj_text_tl: "no_adj_text (c # cs) \<Longrightarrow> no_adj_text cs"
  by (cases cs; cases c; cases "hd cs") auto

lemma no_adj_text_next: "no_adj_text (c # c' # cs) \<Longrightarrow> is_text c \<Longrightarrow> \<not> is_text c'"
  by (cases c; cases c') auto

lemma print_hd: "\<not> is_text n \<Longrightarrow> print_node esc n @ r \<noteq> [] \<and> hd (print_node esc n @ r) = CHR ''<''"
  by (cases n) auto

lemma element_not_text [simp]: "is_element n \<Longrightarrow> \<not> is_text n"
  by (cases n) auto

lemma parse_tree_text:
  assumes "text_ok esc fl s" and "fst st \<noteq> []" and "rest = [] \<or> hd rest = CHR ''<''"
  shows "parse_tree fl st (print_node esc (XPcdata s) @ rest) = parse_tree fl (add_node (XPcdata s) st) rest"
proof -
  let ?t = "text_out esc esc_text_char s"
  have lt: "CHR ''<'' \<notin> set ?t" and sp: "\<not> list_all is_space ?t" and cv: "conv_pcdata fl ?t = s"
    using assms(1) by (simp_all add: text_ok_def Let_def)
  have ne: "?t \<noteq> []" using sp by auto
  have all: "list_all (\<lambda>x. x \<noteq> CHR ''<'') ?t" using lt by (auto simp: list_all_iff)
  have tw: "takeWhile (\<lambda>x. x \<noteq> CHR ''<'') (?t @ rest) = ?t"
    and dw: "dropWhile (\<lambda>x. x \<noteq> CHR ''<'') (?t @ rest) = rest"
    using all assms(3) by (auto intro: takeWhile_append_stop dropWhile_append_stop)
  have "hd (?t @ rest) \<noteq> CHR ''<''" using ne lt by (cases ?t) auto
  then show ?thesis
    using ne sp cv assms(2) tw dw by (simp add: parse_tree.simps [of fl st "?t @ rest"] Let_def)
qed

lemma start_tag_print:
  assumes "name_ok n" "list_all (attr_ok esc fl) as"
    and "(tail = CHR ''/'' # CHR ''>'' # r \<and> cl) \<or> (tail = CHR ''>'' # r \<and> \<not> cl)"
  shows "start_tag fl (n @ concat (map (print_attr esc) as) @ tail) = Some (n, as, cl, r)"
proof -
  let ?x = "concat (map (print_attr esc) as) @ tail"
  have "?x = [] \<or> \<not> is_symbol (hd ?x)" using assms(3) by (cases as) (auto simp: print_attr_Cons)
  moreover have "list_all is_symbol n" using assms(1) by (simp add: name_ok_def)
  ultimately show ?thesis
    using parse_attrs_print [OF assms(2,3)]
    by (simp add: start_tag_def takeWhile_append_stop dropWhile_append_stop)
qed

lemma end_tag_print: "name_ok n \<Longrightarrow> end_tag n (n @ CHR ''>'' # r) = Some r"
  by (simp add: end_tag_def name_ok_def takeWhile_append_stop dropWhile_append_stop)

lemma skip_bom_lt [simp]: "skip_bom (CHR ''<'' # s) = CHR ''<'' # s"
  by (simp add: skip_bom_def)

lemma skip_bom_print [simp]: "\<not> is_text n \<Longrightarrow> skip_bom (print_node esc n @ r) = print_node esc n @ r"
  using print_hd [of n esc r] by (cases "print_node esc n @ r") simp_all

lemma skip_bom_print_doc: "list_all (\<lambda>n. \<not> is_text n) ns \<Longrightarrow> skip_bom (print_doc esc ns) = print_doc esc ns"
  by (cases ns) (simp add: print_doc_def skip_bom_def, simp add: print_doc_def)

lemma add_node_frame [simp]: "add_node c ((nm, as, cs) # stk, tops) = ((nm, as, cs @ [c]) # stk, tops)"
  by (simp add: add_node_def)

lemma cdata_body_id: "scan_for '']]>'' s = None \<Longrightarrow> cdata_body s = s"
  by (induction s rule: cdata_body.induct) (auto simp: numeral_2_eq_2 split: if_splits option.splits)

text \<open>A terminator whose last character occurs nowhere else in it is found right after a text without it.\<close>

lemma scan_for_append:
  assumes "scan_for m t = None" "m \<noteq> []" "last m \<notin> set (butlast m)"
  shows "scan_for m (t @ m @ r) = Some (t, r)"
  using assms(1)
proof (induction t)
  case Nil
  then show ?case using assms(2) by (cases m) simp_all
next
  case (Cons c t)
  have nt: "take (length m) (c # t) \<noteq> m" and t: "scan_for m t = None"
    using Cons.prems by (auto split: if_splits option.splits)
  have "take (length m) ((c # t) @ m @ r) \<noteq> m"
  proof (cases "length m \<le> length (c # t)")
    case True
    then have "take (length m) ((c # t) @ m @ r) = take (length m) (c # t)"
      by (simp only: take_append) simp
    then show ?thesis using nt by simp
  next
    case False
    define k where "k = length m - length (c # t)"
    have k: "0 < k" "k < length m" using False unfolding k_def by simp_all
    have tk: "take (length m) ((c # t) @ m @ r) = (c # t) @ take k m"
      using False unfolding k_def by (simp only: take_append) simp
    have ne: "take k m \<noteq> []" using k assms(2) by simp
    have "take k m = take k (butlast m)" using k(2) by (simp add: take_butlast)
    then have sub: "set (take k m) \<subseteq> set (butlast m)" by (metis set_take_subset)
    have "last ((c # t) @ take k m) \<in> set (take k m)" using ne by simp
    then have "last ((c # t) @ take k m) \<in> set (butlast m)" using sub by (rule rev_subsetD)
    then have "last ((c # t) @ take k m) \<noteq> last m" using assms(3) by metis
    then show ?thesis using tk by metis
  qed
  then show ?case using Cons.IH [OF t] by simp
qed

lemma parse_tree_cdata:
  assumes "node_ok esc fl (XCdata s)"
  shows "parse_tree fl st (print_node esc (XCdata s) @ rest) = parse_tree fl (add_node (XCdata s) st) rest"
proof -
  have ok: "pf_cdata fl" "scan_for '']]>'' s = None" "conv_cdata fl s = s" using assms by simp_all
  have "scan_for '']]>'' (s @ '']]>'' @ rest) = Some (s, rest)"
    by (rule scan_for_append [OF ok(2)]) simp_all
  then have "parse_excl fl no_parent (''[CDATA['' @ s @ '']]>'' @ rest) = Some (Some (XCdata s), rest)" for no_parent
    using ok by (simp add: parse_excl_def)
  then show ?thesis
    using cdata_body_id [OF ok(2)] by (simp add: parse_tree.simps [of fl st "CHR ''<'' # _"])
qed

lemma conv_cdata_id: "CHR 0x0D \<notin> set t \<Longrightarrow> conv_cdata fl t = t"
  unfolding conv_cdata_def by (induction t) auto

lemma space_not_lt: "is_space c \<Longrightarrow> c \<noteq> CHR ''<''" by (auto simp: is_space_def)
lemma parse_tree_blank:
  assumes "w \<noteq> []" "list_all is_space w" "r = [] \<or> hd r = CHR ''<''"
  shows "parse_tree fl st (w @ r) = parse_tree fl st r"
proof -
  have all: "list_all (\<lambda>x. x \<noteq> CHR ''<'') w"
    using assms(2) by (induction w) (auto dest: space_not_lt)
  then have tw: "takeWhile (\<lambda>x. x \<noteq> CHR ''<'') (w @ r) = w" and dw: "dropWhile (\<lambda>x. x \<noteq> CHR ''<'') (w @ r) = r"
    using assms(3) by (auto intro: takeWhile_append_stop dropWhile_append_stop)
  have h: "w @ r \<noteq> []" using assms(1) by simp
  have h2: "hd (w @ r) \<noteq> CHR ''<''" using assms(1) all by (cases w) auto
  show ?thesis
    by (subst parse_tree.simps) (simp add: h h2 tw dw assms(2) Let_def del: append_is_Nil_conv hd_append)
qed

lemma esc_text_char_space: "is_space c \<Longrightarrow> esc_text_char c = [c]"
  unfolding is_space_def by (elim insertE emptyE) (simp_all add: esc_text_char_def)

lemma text_out_blank: "list_all is_space s \<Longrightarrow> text_out esc esc_text_char s = s"
  by (induction s) (auto simp: text_out_def esc_text_char_space)

lemma parse_tree_blank_text:
  assumes "list_all is_space s" and "rest = [] \<or> hd rest = CHR ''<''"
  shows "parse_tree fl st (print_node esc (XPcdata s) @ rest) = parse_tree fl st rest"
proof (cases "s = []")
  case True
  then show ?thesis by (simp add: text_out_def)
next
  case False
  then show ?thesis using parse_tree_blank [of s rest fl st] assms by (simp add: text_out_blank)
qed

lemma text_ok_not_blank: "text_ok esc fl s \<Longrightarrow> \<not> list_all is_space s"
  using text_out_blank [of s esc] by (auto simp: text_ok_def Let_def)

lemma node_ok_not_blank: "node_ok esc fl n \<Longrightarrow> \<not> blank_text n"
  by (cases n) (auto dest: text_ok_not_blank)

lemma not_text_not_blank [simp]: "\<not> is_text n \<Longrightarrow> \<not> blank_text n"
  by (cases n) auto

lemma is_element_strip [simp]: "is_element (strip_blank n) = is_element n"
  by (cases n) auto

lemma is_text_strip [simp]: "is_text (strip_blank n) = is_text n"
  by (cases n) auto

lemma node_ok_strip: "node_ok esc fl n \<Longrightarrow> node_ok_ws esc fl n \<and> strip_blank n = n"
proof (induction n)
  case (XElem n as cs)
  then have "\<forall>c \<in> set cs. node_ok_ws esc fl c \<and> strip_blank c = c \<and> \<not> blank_text c"
    using node_ok_not_blank by auto
  then show ?case using XElem.prems by (auto simp: filter_id_conv intro: map_idI)
qed auto

lemma parse_tree_print_node_ws:
  "node_ok_ws esc fl n \<Longrightarrow> \<not> is_text n \<or> (fst st \<noteq> [] \<and> (rest = [] \<or> hd rest = CHR ''<'')) \<Longrightarrow>
   parse_tree fl st (print_node esc n @ rest) =
     (if blank_text n then parse_tree fl st rest else parse_tree fl (add_node (strip_blank n) st) rest)"
proof (induction n arbitrary: st rest)
  case (XPcdata s)
  show ?case
  proof (cases "list_all is_space s")
    case True
    then show ?thesis using XPcdata.prems(2) parse_tree_blank_text [of s rest fl st esc] by simp
  next
    case False
    then have "text_ok esc fl s" using XPcdata.prems(1) by simp
    then show ?thesis using False XPcdata.prems(2) parse_tree_text [of esc fl s st rest] by simp
  qed
next
  case (XCdata s)
  then show ?case using parse_tree_cdata [of esc fl s st rest] by simp
next
  case (XElem n as cs)
  have nm: "name_ok n" and oks: "list_all (attr_ok esc fl) as" and adj: "no_adj_text cs"
    and cok: "\<forall>c \<in> set cs. node_ok_ws esc fl c"
    using XElem.prems(1) by simp_all
  let ?sc = "\<lambda>ds. map strip_blank (filter (\<lambda>c. \<not> blank_text c) ds)"
  have ns: "n \<noteq> []" "is_start_symbol (hd n)" using nm by (simp_all add: name_ok_def)
  have children: "\<And>ds ds0 stk tops r. set ds \<subseteq> set cs \<Longrightarrow> no_adj_text ds \<Longrightarrow> r = [] \<or> hd r = CHR ''<'' \<Longrightarrow>
      parse_tree fl ((n, as, ds0) # stk, tops) (concat (map (print_node esc) ds) @ r) =
      parse_tree fl ((n, as, ds0 @ ?sc ds) # stk, tops) r"
  proof -
    fix ds ds0 stk tops r
    show "set ds \<subseteq> set cs \<Longrightarrow> no_adj_text ds \<Longrightarrow> r = [] \<or> hd r = CHR ''<'' \<Longrightarrow>
      parse_tree fl ((n, as, ds0) # stk, tops) (concat (map (print_node esc) ds) @ r) =
      parse_tree fl ((n, as, ds0 @ ?sc ds) # stk, tops) r"
    proof (induction ds arbitrary: ds0)
      case Nil
      then show ?case by simp
    next
      case (Cons c ds)
      let ?r = "concat (map (print_node esc) ds) @ r"
      have c: "c \<in> set cs" "node_ok_ws esc fl c" using Cons.prems(1) cok by auto
      have nxt: "\<not> is_text c \<or> (?r = [] \<or> hd ?r = CHR ''<'')"
      proof (cases ds)
        case Nil
        then show ?thesis using Cons.prems(3) by simp
      next
        case (Cons c' es)
        then have "\<not> is_text c \<or> \<not> is_text c'"
          using no_adj_text_next [of c c' es] \<open>no_adj_text (c # ds)\<close> by blast
        then show ?thesis
          using Cons print_hd [of c' esc "concat (map (print_node esc) es) @ r"] by auto
      qed
      have "parse_tree fl ((n, as, ds0) # stk, tops) (print_node esc c @ ?r) =
            parse_tree fl ((n, as, ds0 @ ?sc [c]) # stk, tops) ?r"
        using XElem.IH [OF c] nxt by simp
      also have "\<dots> = parse_tree fl ((n, as, ds0 @ ?sc (c # ds)) # stk, tops) r"
        using Cons.IH [of "ds0 @ ?sc [c]"] Cons.prems no_adj_text_tl by simp
      finally show ?case by simp
    qed
  qed
  show ?case
  proof (cases "cs = []")
    case True
    have "start_tag fl (n @ concat (map (print_attr esc) as) @ CHR ''/'' # CHR ''>'' # rest) = Some (n, as, True, rest)"
      by (rule start_tag_print [OF nm oks]) simp
    then show ?thesis
      using True ns by (simp add: parse_tree.simps [of fl st "CHR ''<'' # _"] neq_Nil_conv)
  next
    case False
    let ?body = "concat (map (print_node esc) cs) @ CHR ''<'' # CHR ''/'' # n @ CHR ''>'' # rest"
    have st: "start_tag fl (n @ concat (map (print_attr esc) as) @ CHR ''>'' # ?body) = Some (n, as, False, ?body)"
      by (rule start_tag_print [OF nm oks]) simp
    have "parse_tree fl st (print_node esc (XElem n as cs) @ rest) = parse_tree fl ((n, as, []) # fst st, snd st) ?body"
      using False ns st by (simp add: parse_tree.simps [of fl st "CHR ''<'' # _"] hd_append2)
    also have "\<dots> = parse_tree fl ((n, as, ?sc cs) # fst st, snd st) (CHR ''<'' # CHR ''/'' # n @ CHR ''>'' # rest)"
      using children [where ds = cs and ds0 = "[]" and stk = "fst st" and tops = "snd st"] adj by simp
    also have "\<dots> = parse_tree fl (add_node (XElem n as (?sc cs)) st) rest"
      using end_tag_print [OF nm, of rest]
      by (simp add: parse_tree.simps [of fl _ "CHR ''<'' # _"])
    finally show ?thesis by simp
  qed
qed

lemma parse_tree_print_node:
  "node_ok esc fl n \<Longrightarrow> \<not> is_text n \<or> (fst st \<noteq> [] \<and> (rest = [] \<or> hd rest = CHR ''<'')) \<Longrightarrow>
   parse_tree fl st (print_node esc n @ rest) = parse_tree fl (add_node n st) rest"
  using parse_tree_print_node_ws [of esc fl n st rest] node_ok_strip [of esc fl n] node_ok_not_blank [of esc fl n]
  by simp

lemma parse_tree_print_doc_ws:
  "list_all (\<lambda>n. \<not> is_text n) ns \<Longrightarrow> list_all (node_ok_ws esc fl) ns \<Longrightarrow>
   parse_tree fl ([], tops) (concat (map (print_node esc) ns) @ rest) = parse_tree fl ([], tops @ map strip_blank ns) rest"
proof (induction ns arbitrary: tops)
  case Nil
  then show ?case by simp
next
  case (Cons n ns)
  then have "parse_tree fl ([], tops) (print_node esc n @ concat (map (print_node esc) ns) @ rest) =
             parse_tree fl ([], tops @ [strip_blank n]) (concat (map (print_node esc) ns) @ rest)"
    using parse_tree_print_node_ws [of esc fl n] by (simp add: add_node_def)
  with Cons show ?case by simp
qed

lemma parse_tree_print_doc:
  assumes "list_all (\<lambda>n. \<not> is_text n) ns" "list_all (node_ok esc fl) ns"
  shows "parse_tree fl ([], tops) (concat (map (print_node esc) ns) @ rest) = parse_tree fl ([], tops @ ns) rest"
proof -
  have "list_all (node_ok_ws esc fl) ns" and "\<And>x. x \<in> set ns \<Longrightarrow> strip_blank x = x"
    using assms(2) node_ok_strip by (auto simp: list_all_iff)
  then have "list_all (node_ok_ws esc fl) ns" "map strip_blank ns = ns" by (simp_all add: map_idI)
  then show ?thesis using parse_tree_print_doc_ws [OF assms(1)] by simp
qed

text \<open>A printed document parses back to itself with the white-space-only text removed.\<close>

theorem parse_doc_print_doc_ws:
  assumes "list_ex is_element ns" "list_all (\<lambda>n. \<not> is_text n) ns" "list_all (node_ok_ws esc fl) ns"
  shows "parse_doc fl (print_doc esc ns) = Some (map strip_blank ns)"
  using parse_tree_print_doc_ws [OF assms(2,3), of "[]" "[]"] assms(1) skip_bom_print_doc [OF assms(2), of esc]
  by (simp add: parse_doc_def print_doc_def parse_tree.simps [of fl _ "[]"] list_ex_iff)

theorem parse_doc_print_doc:
  assumes "list_ex is_element ns" "list_all (\<lambda>n. \<not> is_text n) ns" "list_all (node_ok esc fl) ns"
  shows "parse_doc fl (print_doc esc ns) = Some ns"
  using parse_tree_print_doc [OF assms(2,3), of "[]" "[]"] assms(1) skip_bom_print_doc [OF assms(2), of esc]
  by (simp add: parse_doc_def print_doc_def parse_tree.simps [of fl _ "[]"])

section \<open>Lemmas: which trees print and parse back\<close>

lemma char_ref_chars:
  "(of_char c :: nat) < 32 \<Longrightarrow> set (char_ref c) \<subseteq> {CHR ''&'', CHR ''#'', CHR '';''} \<union> {x. is_digit x}"
  by (auto simp: char_ref_def Let_def)

lemma char_ref_not:
  "(of_char c :: nat) < 32 \<Longrightarrow> x \<notin> {CHR ''&'', CHR ''#'', CHR '';''} \<Longrightarrow> \<not> is_digit x \<Longrightarrow>
   x \<notin> set (char_ref c)"
  using char_ref_chars [of c] by blast

lemma esc_attr_char_no_quote: "CHR 0x22 \<notin> set (esc_attr_char c)"
  using char_ref_not [of c "CHR 0x22"] by (simp add: esc_attr_char_def is_digit_def)

lemma esc_text_char_no_lt: "CHR ''<'' \<notin> set (esc_text_char c)"
  using char_ref_not [of c "CHR ''<''"] by (simp add: esc_text_char_def is_digit_def)

lemma esc_text_char_not_space: "\<not> is_space c \<Longrightarrow> \<exists>x \<in> set (esc_text_char c). \<not> is_space x"
  by (auto simp: esc_text_char_def char_ref_def is_space_def Let_def)

lemma attr_ok_escaped: "pf_escapes fl \<Longrightarrow> attr_ok True fl a \<longleftrightarrow> name_ok (fst a)"
  by (simp add: attr_ok_def text_out_def conv_attr_escaped esc_attr_char_no_quote)

lemma text_ok_escaped:
  assumes "pf_escapes fl" "pf_eol fl \<longrightarrow> CHR 0x0D \<notin> set s" "\<not> list_all is_space s"
  shows "text_ok True fl s"
proof -
  from assms(3) obtain c where "c \<in> set s" "\<not> is_space c" by (auto simp: list_all_iff)
  then have "\<not> list_all is_space (concat (map esc_text_char s))"
    using esc_text_char_not_space [of c] by (auto simp: list_all_iff)
  with assms(1,2) show ?thesis
    by (simp add: text_ok_def text_out_def conv_pcdata_escaped esc_text_char_no_lt)
qed

section \<open>Lemmas: single parse steps\<close>

lemma parse_tree_open:
  assumes "name_ok n"
  shows "parse_tree fl st (CHR ''<'' # n @ CHR ''>'' # r) = parse_tree fl ((n, [], []) # fst st, snd st) r"
proof -
  have st: "start_tag fl (n @ CHR ''>'' # r) = Some (n, [], False, r)"
    using start_tag_print [OF assms, where as = "[]" and tail = "CHR ''>'' # r" and r = r and cl = False] by simp
  have h: "n @ CHR ''>'' # r \<noteq> []" "is_start_symbol (hd (n @ CHR ''>'' # r))"
    using assms by (simp_all add: name_ok_def)
  show ?thesis
    by (subst parse_tree.simps) (simp add: h st del: append_is_Nil_conv hd_append)
qed

lemma parse_tree_close:
  "name_ok n \<Longrightarrow> parse_tree fl ((n, as, cs) # stk, tops) (CHR ''<'' # CHR ''/'' # n @ CHR ''>'' # r) =
     parse_tree fl (add_node (XElem n as cs) (stk, tops)) r"
  using end_tag_print [of n r] by (simp add: parse_tree.simps [of fl _ "CHR ''<'' # _"])

lemma no_adj_text_elements: "list_all is_element cs \<Longrightarrow> no_adj_text cs"
  by (induction cs rule: no_adj_text.induct) auto

text \<open>
  Character data that is only white space is dropped by the parser: an element whose only
  child is such text comes back without children.
\<close>

lemma parse_doc_blank_child:
  assumes "name_ok a" "name_ok b" "list_all is_space w"
  shows "parse_doc fl (CHR ''<'' # a @ CHR ''>'' # CHR ''<'' # b @ CHR ''>'' # w @
           CHR ''<'' # CHR ''/'' # b @ CHR ''>'' # CHR ''<'' # CHR ''/'' # a @ [CHR ''>'']) =
         Some [XElem a [] [XElem b [] []]]"
proof -
  let ?r = "CHR ''<'' # CHR ''/'' # a @ [CHR ''>'']"
  have "parse_tree fl ([], []) (CHR ''<'' # a @ CHR ''>'' # CHR ''<'' # b @ CHR ''>'' # w @
           CHR ''<'' # CHR ''/'' # b @ CHR ''>'' # ?r) =
        parse_tree fl ([(a, [], [])], []) (CHR ''<'' # b @ CHR ''>'' # w @ CHR ''<'' # CHR ''/'' # b @ CHR ''>'' # ?r)"
    by (rule parse_tree_open [THEN trans]) (simp_all add: assms(1))
  also have "\<dots> = parse_tree fl ([(b, [], []), (a, [], [])], []) (w @ CHR ''<'' # CHR ''/'' # b @ CHR ''>'' # ?r)"
    by (rule parse_tree_open [THEN trans]) (simp_all add: assms(2))
  also have "\<dots> = parse_tree fl ([(b, [], []), (a, [], [])], []) (CHR ''<'' # CHR ''/'' # b @ CHR ''>'' # ?r)"
  proof (cases "w = []")
    case False
    then show ?thesis by (rule parse_tree_blank) (use assms in simp_all)
  qed simp
  also have "\<dots> = parse_tree fl ([(a, [], [XElem b [] []])], []) ?r"
    by (rule parse_tree_close [THEN trans]) (simp_all add: add_node_def assms(2))
  also have "\<dots> = parse_tree fl ([], [XElem a [] [XElem b [] []]]) []"
    by (rule parse_tree_close [THEN trans]) (simp_all add: add_node_def assms(1))
  also have "\<dots> = Some [XElem a [] [XElem b [] []]]"
    by (simp add: parse_tree.simps [of _ _ "[]"])
  finally show ?thesis by (simp add: parse_doc_def)
qed

text \<open>Comments, and processing instructions such as the XML declaration, leave no node.\<close>

lemma parse_tree_comment:
  assumes "scan_for ''-->'' t = None"
  shows "parse_tree fl st (''<!--'' @ t @ ''-->'' @ r) = parse_tree fl st r"
proof -
  have "scan_for ''-->'' (t @ ''-->'' @ r) = Some (t, r)"
    by (rule scan_for_append [OF assms]) simp_all
  then have "parse_excl fl no_parent (''--'' @ t @ ''-->'' @ r) = Some (None, r)" for no_parent
    by (simp add: parse_excl_def)
  then show ?thesis by (simp add: parse_tree.simps [of fl st "CHR ''<'' # _"])
qed

lemma parse_tree_pi:
  assumes "name_ok tg" and "b = [] \<or> \<not> is_symbol (hd b)" and "scan_for ''?>'' b = None"
  shows "parse_tree fl st (''<?'' @ tg @ b @ ''?>'' @ r) = parse_tree fl st r"
proof -
  have tg: "tg \<noteq> []" "is_start_symbol (hd tg)" "list_all is_symbol tg"
    using assms(1) by (simp_all add: name_ok_def)
  have "b @ ''?>'' @ r = [] \<or> \<not> is_symbol (hd (b @ ''?>'' @ r))"
    using assms(2) by (cases b) simp_all
  then have d: "dropWhile is_symbol (tg @ b @ ''?>'' @ r) = b @ ''?>'' @ r"
    by (rule dropWhile_append_stop [OF tg(3)])
  have "scan_for ''?>'' (b @ ''?>'' @ r) = Some (b, r)"
    by (rule scan_for_append [OF assms(3)]) simp_all
  then have "skip_pi (tg @ b @ ''?>'' @ r) = Some r"
    using tg d by (simp add: skip_pi_def)
  then show ?thesis by (simp add: parse_tree.simps [of fl st "CHR ''<'' # _"])
qed

text \<open>A document type declaration without markup, quotes or nested groups leaves no node.\<close>

lemma dt_group_plain:
  "list_all (\<lambda>x. x \<notin> {CHR ''<'', CHR ''>'', CHR 0x22, CHR 0x27}) t \<Longrightarrow> dt_group 0 (t @ CHR ''>'' # r) = Some r"
proof (induction t)
  case Nil
  show ?case by (subst dt_group.simps) simp
next
  case (Cons c t)
  have c: "c \<noteq> CHR ''<''" "c \<noteq> CHR ''>''" "c \<noteq> CHR 0x22" "c \<noteq> CHR 0x27" using Cons.prems by simp_all
  have "dt_group 0 (c # t @ CHR ''>'' # r) = dt_group 0 (t @ CHR ''>'' # r)"
    by (subst dt_group.simps) (simp add: c)
  with Cons show ?case by simp
qed

lemma parse_tree_doctype:
  assumes "list_all (\<lambda>x. x \<notin> {CHR ''<'', CHR ''>'', CHR 0x22, CHR 0x27}) t"
  shows "parse_tree fl ([], tops) (''<!DOCTYPE'' @ t @ ''>'' @ r) = parse_tree fl ([], tops) r"
proof -
  have "dt_group 0 (''DOCTYPE'' @ t @ CHR ''>'' # r) = Some r"
    using dt_group_plain [of "''DOCTYPE'' @ t" r] assms by simp
  then have "parse_excl fl True (''DOCTYPE'' @ t @ ''>'' @ r) = Some (None, r)"
    by (simp add: parse_excl_def)
  then show ?thesis by (simp add: parse_tree.simps [of fl _ "CHR ''<'' # _"])
qed

section \<open>Lemmas: what the parser returns\<close>

text \<open>
  Character data outside every element is dropped, so the top-level nodes of a parsed
  document are elements and, under \<open>parse_cdata\<close>, CDATA sections.
\<close>

lemma add_node_tops:
  "\<not> is_text n \<or> fst st \<noteq> [] \<Longrightarrow> list_all (\<lambda>n. \<not> is_text n) (snd st) \<Longrightarrow>
   list_all (\<lambda>n. \<not> is_text n) (snd (add_node n st))"
  by (auto simp: add_node_def split: list.split)

lemma parse_excl_node: "parse_excl fl no_parent s = Some (Some n, r) \<Longrightarrow> \<not> is_text n"
  by (auto simp: parse_excl_def split: if_splits option.splits)

lemma parse_tree_no_text:
  "parse_tree fl st s = Some ns \<Longrightarrow> list_all (\<lambda>n. \<not> is_text n) (snd st) \<Longrightarrow> list_all (\<lambda>n. \<not> is_text n) ns"
proof (induction fl st s rule: parse_tree.induct)
  case (1 fl st s)
  show ?case
  proof (cases "s = []")
    case True
    then show ?thesis using "1.prems" by (simp add: parse_tree.simps [of fl st "[]"] split: if_splits)
  next
    case ne: False
    show ?thesis
    proof (cases "hd s = CHR ''<''")
      case lt: True
      show ?thesis
      proof (cases "tl s \<noteq> [] \<and> is_start_symbol (hd (tl s))")
        case True
        then obtain nm as cl r where st: "start_tag fl (tl s) = Some (nm, as, cl, r)"
          using "1.prems"(1) ne lt by (auto simp: parse_tree.simps [of fl st s] split: option.splits)
        show ?thesis
        proof (cases cl)
          case True
          then show ?thesis
            using "1.IH"(1) [OF ne lt \<open>tl s \<noteq> [] \<and> _\<close> st refl refl refl True] "1.prems" ne lt st
              \<open>tl s \<noteq> [] \<and> _\<close>
            by (simp add: parse_tree.simps [of fl st s] add_node_tops)
        next
          case False
          then show ?thesis
            using "1.IH"(2) [OF ne lt \<open>tl s \<noteq> [] \<and> _\<close> st refl refl refl False] "1.prems" ne lt st
              \<open>tl s \<noteq> [] \<and> _\<close>
            by (simp add: parse_tree.simps [of fl st s])
        qed
      next
        case nst: False
        show ?thesis
        proof (cases "tl s \<noteq> [] \<and> hd (tl s) = CHR ''/''")
          case True
          then obtain nm as cs stk r where fr: "fst st = (nm, as, cs) # stk" and et: "end_tag nm (tl (tl s)) = Some r"
            using "1.prems"(1) ne lt nst by (auto simp: parse_tree.simps [of fl st s] split: list.splits option.splits)
          then show ?thesis
            using "1.IH"(3) [OF ne lt nst True fr refl refl et] "1.prems" ne lt nst True
            by (simp add: parse_tree.simps [of fl st s] add_node_tops)
        next
          case nsl: False
          show ?thesis
          proof (cases "tl s \<noteq> [] \<and> hd (tl s) = CHR ''!''")
            case ex: True
            then obtain x r where pe: "parse_excl fl (fst st = []) (tl (tl s)) = Some (x, r)"
              using "1.prems"(1) ne lt nst nsl by (auto simp: parse_tree.simps [of fl st s] split: option.splits)
            show ?thesis
            proof (cases x)
              case None
              then show ?thesis
                using "1.IH"(4) [OF ne lt nst nsl ex pe refl None] "1.prems" ne lt nst nsl ex pe
                by (simp add: parse_tree.simps [of fl st s])
            next
              case (Some n)
              then have "\<not> is_text n" using pe parse_excl_node by simp
              then show ?thesis
                using "1.IH"(5) [OF ne lt nst nsl ex pe refl Some] "1.prems" ne lt nst nsl ex pe Some
                by (simp add: parse_tree.simps [of fl st s] add_node_tops)
            qed
          next
            case nex: False
            show ?thesis
            proof (cases "tl s \<noteq> [] \<and> hd (tl s) = CHR ''?''")
              case True
              then obtain r where sp: "skip_pi (tl (tl s)) = Some r"
                using "1.prems"(1) ne lt nst nsl nex by (auto simp: parse_tree.simps [of fl st s] split: option.splits)
              then show ?thesis
                using "1.IH"(6) [OF ne lt nst nsl nex True sp] "1.prems" ne lt nst nsl nex True
                by (simp add: parse_tree.simps [of fl st s])
            next
              case False
              then show ?thesis
                using "1.prems"(1) ne lt nst nsl nex by (simp add: parse_tree.simps [of fl st s] split: if_splits)
            qed
          qed
        qed
      qed
    next
      case nlt: False
      let ?t = "takeWhile (\<lambda>x. x \<noteq> CHR ''<'') s"
      let ?r = "dropWhile (\<lambda>x. x \<noteq> CHR ''<'') s"
      show ?thesis
      proof (cases "fst st = [] \<or> list_all is_space ?t")
        case True
        then show ?thesis
          using "1.IH"(7) [OF ne nlt refl refl True] "1.prems" ne nlt
          by (simp add: parse_tree.simps [of fl st s] Let_def)
      next
        case False
        then show ?thesis
          using "1.IH"(8) [OF ne nlt refl refl False] "1.prems" ne nlt
          by (simp add: parse_tree.simps [of fl st s] Let_def add_node_tops)
      qed
    qed
  qed
qed

lemma parse_doc_no_text:
  "parse_doc fl s = Some ns \<Longrightarrow> list_ex is_element ns \<and> list_all (\<lambda>n. \<not> is_text n) ns"
  using parse_tree_no_text [of fl "([], [])" "skip_bom s"] by (auto simp: parse_doc_def split: option.splits if_splits)

end
