(* ===== verification/SheetParse.thy ===== *)
theory SheetParse
  imports SheetData PugiParse
begin

text \<open>
  What the worksheet writer's text reads back as. \<open>xml_sheet_data\<close> prints its rows with
  \<open>format_no_escapes\<close>, so whether the \<open><sheetData>\<close> block that \<open>write_worksheet\<close> writes
  can be read again depends on the values. This theory names the values that need no
  escaping (\<open>plain_attr_value\<close>, \<open>plain_text\<close>) and shows that, when every cell and every
  row attribute holds such values, pugixml with its default options reads the block back
  into the rows the loop built, less the white-space-only text it drops.
\<close>

section \<open>Values that need no escaping\<close>

text \<open>
  An attribute value without \<open>&\<close>, the double quote, or white space other than the space
  (which \<open>parse_wconv_attribute\<close> would turn into spaces); a text without \<open><\<close>, \<open>&\<close>, or a
  carriage return (which \<open>parse_eol\<close> would turn into a line feed).
\<close>

definition plain_attr_value :: "string \<Rightarrow> bool" where
  "plain_attr_value v \<longleftrightarrow> list_all (\<lambda>c. c \<notin> {CHR ''&'', CHR 0x22, CHR 0x09, CHR 0x0A, CHR 0x0D}) v"

definition plain_text :: "string \<Rightarrow> bool" where
  "plain_text v \<longleftrightarrow> list_all (\<lambda>c. c \<notin> {CHR ''<'', CHR ''&'', CHR 0x0D}) v"

text \<open>A cell that is not an inline string and whose fields are plain.\<close>

definition cell_plain :: "cell \<Rightarrow> bool" where
  "cell_plain c \<longleftrightarrow> c_c_t c \<noteq> ''inlineStr'' \<and>
     list_all plain_attr_value [c_r c, c_c_s c, c_c_t c, c_f_t c, c_f_ref c, c_f_ca c, c_f_si c] \<and>
     plain_text (c_f c) \<and> plain_text (c_v c)"

text \<open>A row-attribute table whose column names are XML names and whose values are plain.\<close>

definition row_attr_plain :: "dataframe \<Rightarrow> bool" where
  "row_attr_plain ra \<longleftrightarrow> list_all name_ok (df_names ra) \<and> list_all (list_all plain_attr_value) (df_cols ra)"

section \<open>Lemmas: plain values print and parse back\<close>

lemma name_ok_tags [simp]:
  "name_ok ''si''" "name_ok ''t''" "name_ok ''is''" "name_ok ''c''" "name_ok ''r''" "name_ok ''s''"
  "name_ok ''f''" "name_ok ''ref''" "name_ok ''ca''" "name_ok ''v''" "name_ok ''xml:space''"
  "name_ok ''row''" "name_ok ''sheetData''"
  by (simp_all add: name_ok_def is_symbol_def is_start_symbol_def)

lemma conv_attr_plain: "plain_attr_value v \<Longrightarrow> conv_attr fl v = v"
proof (induction v)
  case (Cons c v)
  then have c: "c \<noteq> CHR ''&''" "c \<noteq> CHR 0x0D" "is_space c \<longrightarrow> c = CHR '' ''"
    by (simp_all add: plain_attr_value_def is_space_def)
  have "plain_attr_value v" using Cons.prems by (simp add: plain_attr_value_def)
  with c Cons.IH show ?case by auto
qed simp

lemma conv_pcdata_plain: "plain_text v \<Longrightarrow> conv_pcdata fl v = v"
  by (induction v) (simp_all add: plain_text_def)

lemma attr_ok_plain: "name_ok n \<Longrightarrow> plain_attr_value v \<Longrightarrow> attr_ok False fl (n, v)"
  by (auto simp: attr_ok_def text_out_def conv_attr_plain plain_attr_value_def list_all_iff)

lemma opt_attr_ok: "name_ok n \<Longrightarrow> plain_attr_value v \<Longrightarrow> list_all (attr_ok False fl) (opt_attr n v)"
  by (simp add: opt_attr_def attr_ok_plain)

lemma text_ok_ws_plain: "plain_text v \<Longrightarrow> node_ok_ws False fl (XPcdata v)"
  by (auto simp: text_ok_def text_out_def conv_pcdata_plain plain_text_def list_all_iff)

section \<open>Lemmas: the nodes the writer builds\<close>

lemma cell_node_ok:
  assumes "cell_plain c" and "cell_node p c = Inr n"
  shows "is_element n \<and> node_ok_ws False fl n"
proof -
  have cp: "c_c_t c \<noteq> ''inlineStr''" "plain_attr_value (c_r c)" "plain_attr_value (c_c_s c)"
    "plain_attr_value (c_c_t c)" "plain_attr_value (c_f_t c)" "plain_attr_value (c_f_ref c)"
    "plain_attr_value (c_f_ca c)" "plain_attr_value (c_f_si c)" "plain_text (c_f c)" "plain_text (c_v c)"
    using assms(1) by (simp_all add: cell_plain_def)
  have n: "n = XElem ''c'' (cell_attrs c) (f_nodes c @ v_nodes c)"
    using assms(2) cp(1) by (simp add: cell_node_def)
  have a: "list_all (attr_ok False fl) (cell_attrs c)"
    using cp by (simp add: cell_attrs_def attr_ok_plain opt_attr_ok)
  have t: "node_ok_ws False fl (XPcdata (c_f c))" "node_ok_ws False fl (XPcdata (c_v c))"
    "node_ok_ws False fl (XPcdata '' '')"
    using cp(9,10) by (simp_all only: text_ok_ws_plain) (simp add: plain_text_def text_ok_ws_plain)
  have f: "list_all is_element (f_nodes c) \<and> list_all (node_ok_ws False fl) (f_nodes c)"
    using cp t(1) by (simp add: f_nodes_def opt_attr_ok del: node_ok_ws.simps(1))
  have pv: "plain_attr_value ''preserve''" by (simp add: plain_attr_value_def)
  have v: "list_all is_element (v_nodes c) \<and> list_all (node_ok_ws False fl) (v_nodes c)"
    using cp pv t(2,3) by (simp add: v_nodes_def attr_ok_plain del: node_ok_ws.simps(1))
  have "no_adj_text (f_nodes c @ v_nodes c)" using f v by (intro no_adj_text_elements) simp
  then show ?thesis using a f v by (auto simp: n list_all_iff)
qed

lemma row_attrs_ok:
  assumes "df_wf ra" and "row_attr_plain ra" and "k < df_nrow ra"
  shows "list_all (attr_ok False fl) (row_attrs ra k)"
proof -
  have "attr_ok False fl (fst nc, snd nc ! k)" if "nc \<in> set (zip (df_names ra) (df_cols ra))" for nc
  proof -
    obtain n col where nc: "nc = (n, col)" by (cases nc)
    have "n \<in> set (df_names ra)" "col \<in> set (df_cols ra)"
      using that nc by (auto dest: set_zip_leftD set_zip_rightD)
    then have "name_ok n" "list_all plain_attr_value col" "length col = df_nrow ra"
      using assms(1,2) by (auto simp: row_attr_plain_def df_wf_def list_all_iff)
    then show ?thesis using assms(3) nc by (simp add: attr_ok_plain list_all_iff)
  qed
  then show ?thesis by (auto simp: row_attrs_def list_all_iff)
qed

lemma sheet_abs_rows_ok:
  assumes "df_wf ra" and "row_attr_plain ra" and "length rids \<le> df_nrow ra"
    and "\<forall>x \<in> set cn. is_element (snd x) \<and> node_ok_ws False fl (snd x)"
  shows "list_all (\<lambda>r. node_ok_ws False fl (row_node r)) (rows (sheet_abs ra rids cn))"
proof -
  have "node_ok_ws False fl (row_node (abs_row ra rids cn k))" if "k < row_idx (sheet_abs ra rids cn)" for k
  proof -
    have "row_idx (sheet_abs ra rids cn) \<le> length rids" by (simp add: sheet_abs_def Let_def rows_upto_le_length)
    then have "k < df_nrow ra" using that assms(3) by simp
    then have "list_all (attr_ok False fl) (row_attrs ra k)" by (rule row_attrs_ok [OF assms(1,2)])
    moreover have "list_all is_element (map snd (filter (\<lambda>x. fst x = rids ! k) cn))"
      and "\<forall>c \<in> set (map snd (filter (\<lambda>x. fst x = rids ! k) cn)). node_ok_ws False fl c"
      using assms(4) by (auto simp: list_all_iff)
    ultimately show ?thesis by (simp add: row_node_def abs_row_def no_adj_text_elements)
  qed
  then show ?thesis by (simp add: sheet_abs_rows list_all_iff)
qed

text \<open>
  The block \<open><sheetData>...</sheetData>\<close> is the printed element whose children are an
  empty text and the rows; the parser drops the empty text.
\<close>

lemma parse_sheet_data:
  assumes "list_all (\<lambda>r. node_ok_ws False fl (row_node r)) rs"
  shows "parse_doc fl (''<sheetData>'' @ print_doc False (map row_node rs) @ ''</sheetData>'') =
           Some [XElem ''sheetData'' [] (map (strip_blank \<circ> row_node) rs)]"
proof -
  let ?t = "XElem ''sheetData'' [] (XPcdata [] # map row_node rs)"
  have e: "list_all is_element (map row_node rs)" by (simp add: row_node_def list_all_iff)
  then have "no_adj_text (XPcdata [] # map row_node rs)"
    by (cases rs) (simp_all add: row_node_def no_adj_text_elements)
  then have "node_ok_ws False fl ?t" using assms by (simp add: list_all_iff)
  then have "parse_doc fl (print_doc False [?t]) = Some (map strip_blank [?t])"
    by (intro parse_doc_print_doc_ws) simp_all
  moreover have "print_doc False [?t] = ''<sheetData>'' @ print_doc False (map row_node rs) @ ''</sheetData>''"
    by (simp add: print_doc_def text_out_def)
  moreover have "filter (\<lambda>c. \<not> blank_text c) (map row_node rs) = map row_node rs"
    by (simp add: filter_id_conv row_node_def)
  ultimately show ?thesis by simp
qed

text \<open>C35: For plain values, the worksheet writer and pugixml's reader agree: when the inputs satisfy the conditions of row reconstruction (C2), the row attributes and the cells hold values that need no escaping and no cell is an inline string, write_worksheet writes <sheetData>...</sheetData> and that block is read back by pugixml (default options) as one <row> per row the loop emitted, each with its attributes and cells, the white-space-only text of <v xml:space="preserve"> </v> removed.\<close>

theorem write_worksheet_sheet_data_reads_back:
  assumes "lookup_cols cc cc_names = Inr cs" and "df_col ra ''r'' = Inr row_r"
    and "map stoi row_r = map Inr rids"
    and "map (\<lambda>i. stoi (c_row_r (mk_cell cs i))) [0..<df_nrow cc] = map Inr crs"
    and "map (\<lambda>i. cell_node parse_is (mk_cell cs i)) [0..<df_nrow cc] = map Inr ns"
    and "sheet_input_ok rids (zip crs ns)"
    and "df_wf ra" and "row_attr_plain ra" and "\<forall>i < df_nrow cc. cell_plain (mk_cell cs i)"
    and "df_nrow ra \<noteq> 0" and "df_nrow cc \<noteq> 0"
  shows "\<exists>body. write_worksheet parse_is prior post ra cc fname fs =
                 (fs(fname \<mapsto> xml_decl @ prior @ ''<sheetData>'' @ body @ ''</sheetData>'' @ post), Inr ()) \<and>
               parse_doc parse_default (''<sheetData>'' @ body @ ''</sheetData>'') =
                 Some [XElem ''sheetData'' [] (map (strip_blank \<circ> row_node) (rows (sheet_abs ra rids (zip crs ns))))]"
proof -
  let ?rs = "rows (sheet_abs ra rids (zip crs ns))"
  have "sheet_loop (cell_node parse_is) ra row_r (map (mk_cell cs) [0..<df_nrow cc]) init_state =
        Inr (sheet_abs ra rids (zip crs ns))"
    by (rule sheet_loop_refines) (use assms in \<open>simp_all add: comp_def\<close>)
  then have x: "xml_sheet_data parse_is ra cc = Inr (print_doc False (map row_node ?rs))"
    using assms(1,2) by (simp add: xml_sheet_data_def)
  have nodes: "is_element x \<and> node_ok_ws False parse_default x" if "x \<in> set ns" for x
  proof -
    have "Inr x \<in> set (map (\<lambda>i. cell_node parse_is (mk_cell cs i)) [0..<df_nrow cc])"
      using that assms(5) by simp
    then obtain i where "i < df_nrow cc" "cell_node parse_is (mk_cell cs i) = Inr x" by auto
    then show ?thesis using assms(9) cell_node_ok by blast
  qed
  have "\<forall>x \<in> set (zip crs ns). is_element (snd x) \<and> node_ok_ws False parse_default (snd x)"
    using nodes by (auto dest: set_zip_rightD)
  moreover have "length rids = length row_r" using assms(3) by (metis length_map)
  then have "length rids \<le> df_nrow ra" using df_col_length [OF assms(7,2)] by simp
  ultimately have ok: "list_all (\<lambda>r. node_ok_ws False parse_default (row_node r)) ?rs"
    using assms(7,8) by (intro sheet_abs_rows_ok)
  have "write_worksheet parse_is prior post ra cc fname fs =
          (fs(fname \<mapsto> xml_decl @ prior @ ''<sheetData>'' @ print_doc False (map row_node ?rs) @ ''</sheetData>'' @ post), Inr ())"
    using x assms(10,11) by (simp add: write_worksheet_def)
  then show ?thesis using parse_sheet_data [OF ok] by blast
qed

end
