(* ===== verification/Spec2Isabelle.thy ===== *)
theory Spec2Isabelle
  imports Styles SheetParse
begin

text \<open>
  \<^bold>\<open>The openxlsx2 record/XML marshalling engine, verified.\<close>

  The program (src/src/styles_xml.cpp and src/src/write_file.cpp) moves spreadsheet data
  between R data frames of strings and OOXML fragments. It has two independent parts:
  \<^item> the style codec: \<open>read_xf\<close> reads a document of \<open><xf>\<close> elements into a 25-column
    data frame; \<open>write_xf\<close>, helped by \<open>has_it\<close>, turns each row back into one \<open><xf>\<close>
    fragment with its optional \<open><alignment>\<close>, \<open><extLst>\<close> and \<open><protection>\<close> children;
  \<^item> the worksheet writer: \<open>xml_sheet_data\<close> replays the row-attribute table and the cell
    table into the rows of \<open><sheetData>\<close> (the row reconstructor, whose inner loop emits
    rows that have no cells) and builds each \<open><c>\<close> node (the cell emitter);
    \<open>write_worksheet\<close> writes the file around it and \<open>set_sst\<close> wraps shared strings.
  Both build a pugixml document and serialise it; the R side hands in data frames and
  the absent-value sentinel \<open>_openxlsx_NA_\<close>.

  \<^bold>\<open>Theories.\<close>
  \<^item> \<open>Prelude\<close>: the \<open>error\<close> and \<open>warning\<close> datatypes (every \<open>Rcpp::stop\<close>, C++ exception
    and \<open>Rcout\<close> diagnostic is a constructor), \<open>rbind\<close> for the sum type, the sentinel
    \<open>rnastring\<close>, data frames as a record (\<open>df_names\<close>, \<open>df_cols\<close>, \<open>df_nrow\<close>) with their
    invariant \<open>df_wf\<close> and named lookup \<open>df_col\<close>, and the lemmas on column-major tables
    (\<open>get_row\<close>, \<open>set_row\<close>, \<open>cols_of\<close>, \<open>fold_row_local\<close>) that the loops share.
  \<^item> \<open>Pugi\<close>: the pugixml document tree (\<open>xnode\<close>: elements, text and CDATA sections) and
    its \<open>format_raw\<close> serialisation with and without escapes (library behaviour, not
    repository code).
  \<^item> \<open>Stoi\<close>: \<open>std::stoi\<close> (white space, sign, digits, \<open>invalid_argument\<close>,
    \<open>out_of_range\<close> on the 32-bit range) and the decimal rendering it reads back.
  \<^item> \<open>Styles\<close>: \<open>read_xf\<close> as its loops are written (\<open>read_xf_attr\<close>, \<open>read_xf_child\<close>,
    \<open>read_xf_elem\<close>, \<open>read_xf_loop\<close>, the \<open>which_name\<close> lookup), \<open>has_it\<close>, and \<open>write_xf\<close>
    (\<open>write_xf_col\<close> for one column of the loop, \<open>write_xf_node\<close> for one row); then the
    abstract readings \<open>decode_xf\<close> (the row one element gives) and \<open>part_attrs\<close> (the
    attributes one partition gets).
  \<^item> \<open>SheetData\<close>: the cell record and \<open>cell_node\<close> with its blocks \<open>cell_attrs\<close>,
    \<open>f_nodes\<close>, \<open>v_nodes\<close>; \<open>to_string\<close> and \<open>mk_cell\<close>, the fields of one cell; \<open>row_attrs\<close>; the loop state \<open>sheet_state\<close> (\<open>lastrow\<close>,
    \<open>row_idx\<close>, \<open>rowid\<close> and the rows; the C++ handle \<open>row\<close> is always the last row);
    \<open>emit_rows\<close> (the inner \<open>while\<close>), \<open>sheet_step\<close> and \<open>sheet_loop\<close> (the cell loop,
    over any cell emitter), \<open>xml_sheet_data\<close>, \<open>write_worksheet\<close> (files as a map from
    names to contents) and \<open>set_sst\<close>; then the closed form \<open>sheet_abs\<close> of the loop.
  \<^item> \<open>PugiParse\<close>: the part of pugixml's \<open>load_string\<close> that reads what \<open>format_raw\<close>
    writes: \<open>parse_tree\<close> (start tags with \<open>parse_attrs\<close>, end tags, character data;
    open elements as a stack of frames), the conversions \<open>conv_pcdata\<close> and \<open>conv_attr\<close>
    (\<open>strconv_escape\<close> for entities and character references, end-of-line and
    attribute white-space normalisation), CDATA sections (\<open>parse_excl\<close>, kept as nodes
    under \<open>parse_cdata\<close>), skipped comments and processing instructions (\<open>skip_pi\<close>)
    and document type declarations (\<open>dt_group\<close>, \<open>dt_ignore\<close>, \<open>dt_primitive\<close>)
    under the options \<open>parse_default\<close> and the
    code's \<open>is_parse_flags\<close> (write_file.cpp line 50, no \<open>parse_escapes\<close>), after the byte
    order mark (\<open>skip_bom\<close>); then the theorem \<open>parse_doc_print_doc_ws\<close> that a printed tree
    satisfying \<open>node_ok_ws\<close> parses back to itself less its white-space-only text
    (\<open>strip_blank\<close>), and its special case \<open>parse_doc_print_doc\<close> for \<open>node_ok\<close>.
  \<^item> \<open>SheetParse\<close>: the values that need no escaping (\<open>plain_attr_value\<close>,
    \<open>plain_text\<close>, \<open>cell_plain\<close>, \<open>row_attr_plain\<close>) and the theorem that the
    \<open><sheetData>\<close> block \<open>write_worksheet\<close> writes from such values is read back by pugixml.
  \<^item> this theory: the properties that compose the codecs with the parser, example data
    and the witnesses of the claims.

  \<^bold>\<open>What is proved.\<close>
  \<^item> Style codec: \<open>read_xf\<close> equals the row-wise reading \<open>decode_xf\<close> (\<open>read_xf_refines\<close>,
    via \<open>fold_row_local\<close>); \<open>write_xf_node\<close> emits exactly the non-empty columns of each
    partition and a child only when its partition is non-empty (\<open>write_xf_node_spec\<close>);
    hence the round trip \<open>read_write_xf_roundtrip\<close>. Error and warning behaviour:
    \<open>read_xf_not_xf\<close>, \<open>read_xf_unknown_attr\<close>; the reading is by name in all 25
    columns, last attribute wins, default empty string (\<open>read_xf_cell_value\<close>).
  \<^item> Worksheet writer: the cell loop equals its closed form \<open>sheet_abs\<close> on well-formed
    input (\<open>sheet_loop_refines\<close>, \<open>xml_sheet_data_refines\<close>): rows without cells are
    reproduced and every cell lands in its row. The inner loop's postcondition
    (\<open>emit_rows_post\<close>) and the loop invariant \<open>sheet_inv\<close> (\<open>sheet_loop_invariant\<close>: row
    numbers within the \<open>int\<close> range, one row per row read); the cell emitter's branches
    (empty value preserved, absent value, inline strings, formula text); the error paths
    (\<open>emit_rows_exhausted\<close>, malformed inline string, truncated file).
  \<^item> Through the text: every \<open>write_xf\<close> string parses back to its element, whatever
    the values hold (\<open>write_xf_parse\<close>; with the round trip, decode after encode is the
    identity on the text, and \<open>write_xf_text_roundtrip\<close> composes the two for the whole
    sequence of fragments); \<open>set_sst\<close> fragments parse back (\<open>set_sst_parse\<close>), and
    exactly the blank strings are lost (\<open>set_sst_blank_lost\<close>); an
    inline string is copied byte for byte when the parser is pugixml with the code's
    options (\<open>cell_inline_string_verbatim\<close>). What does not survive: white-space-only
    inline strings and shared strings (\<open>cell_inline_string_blank_lost\<close>,
    \<open>set_sst_blank_lost\<close>), values with \<open><\<close>, which \<open>format_no_escapes\<close> writes
    verbatim (\<open>xml_sheet_data_unescaped\<close>; its witness shows the block then fails to
    parse), sentinel row attributes (\<open>row_attrs_sentinel\<close>).
    A successful parse yields top-level nodes that are elements or CDATA sections, at
    least one an element (\<open>parse_doc_no_text\<close>), so an inline-string cell gets exactly
    one parsed node after its \<open><f>\<close> and \<open><v>\<close> children, never character data
    (\<open>cell_inline_string_element\<close>). That node is a CDATA section, and the \<open><is>\<close>
    element is lost, when the stored text starts with one
    (\<open>cell_inline_string_cdata_first\<close>); a leading XML declaration or document type
    declaration is skipped (\<open>cell_inline_string_declaration\<close>, \<open>cell_inline_string_doctype\<close>).
  \<^item> Writer and reader together: for plain values, the \<open><sheetData>\<close> block that
    \<open>write_worksheet\<close> writes is read back by pugixml's default parser as the rows of
    the closed form \<open>sheet_abs\<close>, white-space-only text removed
    (\<open>write_worksheet_sheet_data_reads_back\<close>, which composes \<open>sheet_loop_refines\<close>,
    the cell and row node lemmas and \<open>parse_doc_print_doc_ws\<close>).
  \<^item> Input the spec does not cover: one iteration of the cell loop emits the rows of the
    table up to the first whose identifier is at least the cell's row and puts the cell
    there, so a cell of a row missing from the table lands in the next row
    (\<open>sheet_step_cell_in_next_row\<close>, from the closed form \<open>emit_rows_run\<close> of the inner
    loop); an unsorted cell is appended to the last row emitted, a
    later row (\<open>sheet_loop_unsorted_cell\<close>); a missing column of the cell table is Rcpp's
    \<open>index_out_of_bounds\<close> for the first one the code reads (\<open>xml_sheet_data_missing_column\<close>).
  \<^item> Bounds: a row number outside \<open>[-2^31, 2^31-1]\<close> stops the cell loop with
    \<open>OutOfRange\<close> (\<open>sheet_step_row_out_of_range\<close>, from \<open>stoi_int_to_dec\<close>).

  \<^bold>\<open>Termination and bounds.\<close> \<open>emit_rows\<close> is a \<open>function\<close> whose termination measure is
  the number of row-table entries not yet read; reading past the end, undefined in the
  C++, is the error \<open>RowAttrExhausted\<close> (\<open>emit_rows_exhausted\<close>); \<open>emit_rows_reaches\<close> shows that it exits
  normally once an entry at least the cell's row lies ahead. The parser's \<open>conv_pcdata\<close>, \<open>conv_attr\<close>,
  \<open>parse_attrs\<close> and \<open>parse_tree\<close> are \<open>function\<close>s whose measure is the length of the
  text left (each step consumes at least one character: \<open>parse_attr_rest\<close>,
  \<open>parse_attrs_rest\<close>; comments, CDATA sections and processing instructions through
  \<open>scan_for_rest\<close>). Every other loop is structural recursion or a fold over a list.
  Character references wrap modulo \<open>2^32\<close> as pugixml's \<open>unsigned int\<close> does. The C++ \<open>int\<close> variables are HOL integers; the only values they take
  come from \<open>stoi\<close>, which bounds them, so no wrap-around can occur.

  \<^bold>\<open>Not modelled.\<close> Of pugixml's parser, the options the code never sets
  (\<open>parse_ws_pcdata\<close>, \<open>parse_comments\<close>, \<open>parse_pi\<close>, \<open>parse_doctype\<close>,
  \<open>parse_fragment\<close>, ...) and its treatment of malformed text at the very end of the input,
  where it consults the character it replaced by the terminator (the model reads the text
  as a whole). \<open>read_xf\<close> takes its document as a parsed tree, as the code takes an
  \<open>XPtrXML\<close> parsed by the R side with options this repository does not fix; the cell
  emitter takes the inline-string parser as a parameter \<open>parse_is\<close> that the theorems of
  this theory instantiate with \<open>parse_doc is_parse_flags\<close>. R's \<open>NA_character_\<close> is
  treated as its print name; Rcpp's conversions of non-character columns, the zip archive
  and file paths of the R side, and the file-open failure of \<open>std::ofstream\<close> are not
  modelled (the model assumes the file can be written).
\<close>

section \<open>Example data\<close>

definition ex_xf_frame :: dataframe where
  "ex_xf_frame = \<lparr>df_names = nams,
     df_cols = map (\<lambda>n. if n = ''fontId'' then [''1''] else if n = ''horizontal'' then [''center'']
                        else if n = ''applyFont'' then [rnastring] else [[]]) nams,
     df_nrow = 1\<rparr>"

definition ex_xf_doc :: "xnode list" where
  "ex_xf_doc = [XElem ''xf'' [(''fontId'', ''1''), (''bogus'', ''x'')]
                  [XElem ''alignment'' [(''horizontal'', ''center''), (''fontId'', ''2'')] [], XElem ''font'' [] []]]"

definition ex_row_attr :: dataframe where
  "ex_row_attr = \<lparr>df_names = [''r'', ''ht''], df_cols = [[''1'', ''2'', ''3'', ''4''], [[], ''15'', [], []]], df_nrow = 4\<rparr>"

definition ex_row_r :: "string list" where
  "ex_row_r = [''1'', ''2'', ''3'', ''4'']"

definition ex_emit_state :: sheet_state where
  "ex_emit_state = \<lparr>lastrow = 0, row_idx = 3, rowid = 3,
     rows = [([(''r'', ''1'')], []), ([(''r'', ''2''), (''ht'', ''15'')], []), ([(''r'', ''3'')], [])]\<rparr>"

definition ex_loop_state :: sheet_state where
  "ex_loop_state = \<lparr>lastrow = 1, row_idx = 1, rowid = 1,
     rows = [([(''r'', ''1'')], [XElem ''c'' [(''r'', ''A1'')] [XElem ''v'' [(''xml:space'', ''preserve'')] [XPcdata '' '']]])]\<rparr>"

definition ex_cell :: cell where
  "ex_cell = \<lparr>c_row_r = ''1'', c_r = ''A1'', c_v = [], c_c_t = rnastring, c_c_s = rnastring, c_f = rnastring,
     c_f_t = rnastring, c_f_ref = rnastring, c_f_ca = rnastring, c_f_si = rnastring, c_is = rnastring\<rparr>"

definition ex_cc :: dataframe where
  "ex_cc = \<lparr>df_names = cc_names,
     df_cols = [[''1'', ''4''], [''A1'', ''B4''], [[], ''7''], [rnastring, rnastring], [rnastring, ''s''],
                [rnastring, rnastring], [rnastring, rnastring], [rnastring, rnastring], [rnastring, rnastring],
                [rnastring, rnastring], [rnastring, rnastring]],
     df_nrow = 2\<rparr>"

definition ex_cc_beyond :: dataframe where
  "ex_cc_beyond = ex_cc\<lparr>df_cols := [''1'', ''5''] # tl (df_cols ex_cc)\<rparr>"

definition ex_node_a1 :: xnode where
  "ex_node_a1 = XElem ''c'' [(''r'', ''A1'')] [XElem ''v'' [(''xml:space'', ''preserve'')] [XPcdata '' '']]"

definition ex_node_b4 :: xnode where
  "ex_node_b4 = XElem ''c'' [(''r'', ''B4''), (''s'', ''s'')] [XElem ''v'' [] [XPcdata ''7'']]"

text \<open>The attributes of an XML declaration, \<open> version='1.0'\<close>.\<close>

definition ex_decl_attrs :: string where
  "ex_decl_attrs = '' version='' @ [CHR 0x27] @ ''1.0'' @ [CHR 0x27]"

definition ex_is_parser :: "string \<Rightarrow> xnode list option" where
  "ex_is_parser s = (if s = ''<is><t>hello</t></is>'' then Some [XElem ''is'' [] [XElem ''t'' [] [XPcdata ''hello'']]] else None)"

definition ex_ra_one :: dataframe where
  "ex_ra_one = \<lparr>df_names = [''r''], df_cols = [[''1'']], df_nrow = 1\<rparr>"

definition ex_cc_val :: "string \<Rightarrow> string \<Rightarrow> dataframe" where
  "ex_cc_val a v = \<lparr>df_names = cc_names,
     df_cols = [[''1''], [a], [v]] @ [[rnastring], [rnastring], [rnastring], [rnastring], [rnastring], [rnastring],
                [rnastring], [rnastring]], df_nrow = 1\<rparr>"

definition ex_ra_gap :: dataframe where
  "ex_ra_gap = \<lparr>df_names = [''r''], df_cols = [[''1'', ''2'', ''4'']], df_nrow = 3\<rparr>"

lemmas ex_eval_simps = stoi_def split_sign_def is_c_space_def is_digit_def digits_val_def digit_val_def
  int_min_def int_max_def rnastring_def opt_attr_def cell_attrs_def f_nodes_def v_nodes_def has_formula_def
  f_si_seen_def cell_node_def

lemma ex_row_r_ids: "map stoi ex_row_r = map Inr [1, 2, 3, 4]"
  by (simp add: ex_row_r_def ex_eval_simps)

section \<open>The codecs through the XML text\<close>

text \<open>
  write_xf, set_sst and xml_sheet_data hand back text that is read again by pugixml; an
  inline string is parsed by pugixml before it is copied. These properties compose the
  component models with the model of the parser in PugiParse.
\<close>

lemma nams_name_ok: "list_all name_ok nams"
  by (simp add: nams_def name_ok_def is_symbol_def is_start_symbol_def is_digit_def)

lemma part_attrs_ok:
  assumes "df_names d = nams"
  shows "list_all (attr_ok True parse_default) (part_attrs P d i)"
proof -
  have "fst a \<in> set nams" if "a \<in> set (part_attrs P d i)" for a
    using that fst_pick_subset [of P i "df_names d" "df_cols d"] assms by (auto simp: part_attrs_def)
  then show ?thesis
    using nams_name_ok by (auto simp: list_all_iff attr_ok_escaped parse_default_def)
qed

lemma opt_child_ok:
  "name_ok n \<Longrightarrow> list_all (attr_ok esc fl) as \<Longrightarrow>
   list_all is_element (opt_child n as) \<and> list_all (node_ok esc fl) (opt_child n as)"
  by (simp add: opt_child_def)

lemma write_xf_node_ok:
  assumes "df_names d = nams"
  shows "node_ok True parse_default (write_xf_node d i)"
proof -
  have n: "name_ok ''xf''" "name_ok ''alignment''" "name_ok ''extLst''" "name_ok ''protection''"
    by (simp_all add: name_ok_def is_symbol_def is_start_symbol_def)
  have "list_all is_element (opt_child ''alignment'' (part_attrs xf_nams_alignment d i) @
          opt_child ''extLst'' (part_attrs xf_nams_extLst d i) @
          opt_child ''protection'' (part_attrs xf_nams_protection d i))"
    "list_all (node_ok True parse_default) (opt_child ''alignment'' (part_attrs xf_nams_alignment d i) @
          opt_child ''extLst'' (part_attrs xf_nams_extLst d i) @
          opt_child ''protection'' (part_attrs xf_nams_protection d i))"
    using opt_child_ok [OF n(2) part_attrs_ok [OF assms]] opt_child_ok [OF n(3) part_attrs_ok [OF assms]]
      opt_child_ok [OF n(4) part_attrs_ok [OF assms]] by simp_all
  then show ?thesis
    using n(1) part_attrs_ok [OF assms] no_adj_text_elements
    by (simp add: write_xf_node_spec list_all_iff)
qed

text \<open>C21: Each string write_xf produces is parsed by pugixml (default options) back to exactly the <xf> element write_xf_node built, whatever the attribute values hold: with C1, encode then decode through the text is the identity.\<close>

theorem write_xf_parse:
  assumes "df_names d = nams" and "i < df_nrow d"
  shows "parse_doc parse_default (write_xf d ! i) = Some [write_xf_node d i]"
proof -
  have "write_xf d ! i = print_doc True [write_xf_node d i]"
    using assms(2) by (simp add: write_xf_def print_doc_def)
  moreover have "is_element (write_xf_node d i)" by (simp add: write_xf_node_spec)
  ultimately show ?thesis
    using parse_doc_print_doc [of "[write_xf_node d i]" True parse_default] write_xf_node_ok [OF assms(1)]
    by simp
qed

text \<open>C34: Encode then decode through the text: the <xf> fragments write_xf produces for a well-formed 25-column data frame with at least one row, written one after the other, are parsed by pugixml (default options) into a document whose children read_xf turns back into the same data frame, with no warning.\<close>

theorem write_xf_text_roundtrip:
  assumes wf: "df_wf d" and nm: "df_names d = nams" and ne: "0 < df_nrow d"
  shows "\<exists>doc. parse_doc parse_default (concat (write_xf d)) = Some doc \<and> read_xf doc = ([], Inr d)"
proof -
  let ?doc = "map (write_xf_node d) [0..<df_nrow d]"
  have el: "list_all is_element ?doc" by (simp add: list_all_length write_xf_node_spec)
  have "list_ex is_element ?doc" using ne el by (cases "df_nrow d") (simp_all add: write_xf_node_spec)
  moreover have "list_all (\<lambda>n. \<not> is_text n) ?doc" using el by (simp add: list_all_length)
  moreover have "list_all (node_ok True parse_default) ?doc"
    using write_xf_node_ok [OF nm] by (simp add: list_all_length)
  ultimately have p: "parse_doc parse_default (concat (write_xf d)) = Some ?doc"
    using parse_doc_print_doc [of ?doc True parse_default] by (simp add: write_xf_def print_doc_def comp_def)
  have xf: "list_all is_xf ?doc"
    by (simp add: list_all_length write_xf_node_spec is_xf_def)
  have ws: "concat (map elem_warnings ?doc) = []"
    using nm by (simp add: elem_warnings_write_xf_node)
  have rows: "map decode_xf ?doc = map (get_row (df_cols d)) [0..<df_nrow d]"
    using wf nm by (simp add: decode_write_xf_node)
  have cols: "cols_of (length nams) (map (get_row (df_cols d)) [0..<df_nrow d]) = df_cols d"
    using wf nm by (intro cols_of_get_rows) (simp_all add: df_wf_def)
  have "read_xf ?doc = ([], Inr \<lparr>df_names = nams, df_cols = df_cols d, df_nrow = df_nrow d\<rparr>)"
    by (simp only: read_xf_refines [OF xf] ws rows cols length_map length_upt diff_zero)
  then have "read_xf ?doc = ([], Inr d)" using nm by (cases d) simp
  with p show ?thesis by blast
qed

text \<open>C22: Each shared-string fragment set_sst produces is parsed back to <si><t>s</t></si> with the original string, when the string has no carriage return and is not only white space.\<close>

theorem set_sst_parse:
  assumes "i < length ss" and "CHR 0x0D \<notin> set (ss ! i)" and "\<not> list_all is_space (ss ! i)"
  shows "parse_doc parse_default (set_sst ss ! i) = Some [XElem ''si'' [] [XElem ''t'' [] [XPcdata (ss ! i)]]]"
proof -
  have "text_ok True parse_default (ss ! i)"
    using assms(2,3) by (intro text_ok_escaped) (simp_all add: parse_default_def)
  then show ?thesis
    using assms(1) parse_doc_print_doc [of "[XElem ''si'' [] [XElem ''t'' [] [XPcdata (ss ! i)]]]" True parse_default]
    by (simp add: set_sst_def print_doc_def)
qed

text \<open>C23: An inline-string cell whose stored XML is a printed element is emitted with that element as its last child, and the printed cell contains the stored XML byte for byte.\<close>

theorem cell_inline_string_verbatim:
  assumes "c_c_t c = ''inlineStr''" and "c_is c = print_node False n"
    and "is_element n" and "node_ok False is_parse_flags n"
  shows "cell_node (parse_doc is_parse_flags) c = Inr (XElem ''c'' (cell_attrs c) (f_nodes c @ v_nodes c @ [n])) \<and>
         (\<exists>pre. print_node False (XElem ''c'' (cell_attrs c) (f_nodes c @ v_nodes c @ [n])) = pre @ c_is c @ ''</c>'')"
proof -
  have "print_node False n \<noteq> [] \<and> hd (print_node False n) = CHR ''<''"
    using print_hd [of n False "[]"] assms(3) by simp
  then have na: "c_is c \<noteq> rnastring" using assms(2) by (auto simp: rnastring_def)
  have "parse_doc is_parse_flags (c_is c) = Some [n]"
    using parse_doc_print_doc [of "[n]" False is_parse_flags] assms(2-4) by (simp add: print_doc_def)
  then show ?thesis
    using assms(1,2) na by (auto simp: cell_node_def)
qed

text \<open>C24: An inline string whose text is only white space loses its text: the code parses the stored XML without parse_ws_pcdata, so <is><t> </t></is> is copied as <is><t/></is>.\<close>

theorem cell_inline_string_blank_lost:
  assumes "c_c_t c = ''inlineStr''" and "c_is c = ''<is><t>'' @ w @ ''</t></is>''"
    and "w \<noteq> []" and "list_all is_space w"
  shows "cell_node (parse_doc is_parse_flags) c =
           Inr (XElem ''c'' (cell_attrs c) (f_nodes c @ v_nodes c @ [XElem ''is'' [] [XElem ''t'' [] []]]))"
proof -
  have "c_is c = CHR ''<'' # ''is'' @ CHR ''>'' # CHR ''<'' # ''t'' @ CHR ''>'' # w @
      CHR ''<'' # CHR ''/'' # ''t'' @ CHR ''>'' # CHR ''<'' # CHR ''/'' # ''is'' @ [CHR ''>'']"
    using assms(2) by simp
  then have "parse_doc is_parse_flags (c_is c) = Some [XElem ''is'' [] [XElem ''t'' [] []]]"
    using parse_doc_blank_child [OF name_ok_tags(3,2) assms(4)] by simp
  moreover have "c_is c \<noteq> rnastring" using assms(2) by (simp add: rnastring_def)
  ultimately show ?thesis using assms(1) by (simp add: cell_node_def)
qed

text \<open>C25: set_sst loses exactly the blank strings. Read back by pugixml's default parser, the fragment set_sst writes for a string without carriage return is <si><t>s</t></si> with the original string when the string holds a character other than white space, and an <si> whose <t> has no text when the string is empty or only white space: set_sst writes no xml:space, and the default parser drops blank text.\<close>

theorem set_sst_blank_lost:
  assumes "i < length ss" and "CHR 0x0D \<notin> set (ss ! i)"
  shows "parse_doc parse_default (set_sst ss ! i) =
           Some [XElem ''si'' [] [XElem ''t'' [] (if list_all is_space (ss ! i) then [] else [XPcdata (ss ! i)])]]"
proof (cases "list_all is_space (ss ! i)")
  case True
  then have "text_out True esc_text_char (ss ! i) = ss ! i" by (rule text_out_blank)
  then have "set_sst ss ! i = CHR ''<'' # ''si'' @ CHR ''>'' # CHR ''<'' # ''t'' @ CHR ''>'' # ss ! i @
      CHR ''<'' # CHR ''/'' # ''t'' @ CHR ''>'' # CHR ''<'' # CHR ''/'' # ''si'' @ [CHR ''>'']"
    using assms(1) by (simp add: set_sst_def)
  then show ?thesis using parse_doc_blank_child [OF name_ok_tags(1,2) True] True by simp
next
  case False
  then have "text_ok True parse_default (ss ! i)"
    using assms(2) by (intro text_ok_escaped) (simp_all add: parse_default_def)
  then show ?thesis
    using assms(1) False parse_doc_print_doc [of "[XElem ''si'' [] [XElem ''t'' [] [XPcdata (ss ! i)]]]" True parse_default]
    by (simp add: set_sst_def print_doc_def)
qed

text \<open>C26: xml_sheet_data prints with format_no_escapes: a cell's reference and value are written verbatim, whatever characters they hold, so a value holding < gives a <sheetData> block that is not well-formed XML.\<close>

theorem xml_sheet_data_unescaped:
  assumes "v \<noteq> []" and "v \<noteq> rnastring"
  shows "xml_sheet_data p ex_ra_one (ex_cc_val a v) =
           Inr (''<row r='' @ [CHR 0x22] @ ''1'' @ [CHR 0x22] @ ''><c r='' @ [CHR 0x22] @ a @ [CHR 0x22] @
                ''><v>'' @ v @ ''</v></c></row>'')"
  using assms
  by (simp add: xml_sheet_data_def ex_cc_val_def cc_names_def df_col_def ex_ra_one_def mk_cell_def to_string_def
        sheet_step_def emit_rows.simps init_state_def row_attrs_def append_cell_def ex_eval_simps
        row_node_def print_doc_def print_attr_def text_out_def)

text \<open>C30: An inline-string cell emitted with pugixml's parser under the code's options carries exactly one copied node after its <f> and <v> children, and that node is never character data: it is an element or, since the options include parse_cdata, a CDATA section.\<close>

theorem cell_inline_string_element:
  assumes "c_c_t c = ''inlineStr''" and "c_is c \<noteq> rnastring"
    and "cell_node (parse_doc is_parse_flags) c = Inr x"
  shows "\<exists>n. \<not> is_text n \<and> x = XElem ''c'' (cell_attrs c) (f_nodes c @ v_nodes c @ [n])"
proof -
  obtain ns where p: "parse_doc is_parse_flags (c_is c) = Some ns"
    and x: "x = XElem ''c'' (cell_attrs c) (f_nodes c @ v_nodes c @ take 1 ns)"
    using assms by (auto simp: cell_node_def split: option.splits)
  from parse_doc_no_text [OF p] obtain n ns' where "ns = n # ns'" "\<not> is_text n"
    by (cases ns) auto
  with x show ?thesis by auto
qed

text \<open>C31: A stored inline string that starts with a CDATA section before its element is accepted by the parser (pugixml keeps a CDATA node outside the root under parse_cdata), and the cell copies the CDATA node, the first child of the parsed document, instead of the <is> element, which is lost.\<close>

theorem cell_inline_string_cdata_first:
  assumes "c_c_t c = ''inlineStr''" and "c_is c = ''<![CDATA['' @ t @ '']]>'' @ print_node False n"
    and "scan_for '']]>'' t = None" and "CHR 0x0D \<notin> set t"
    and "is_element n" and "node_ok False is_parse_flags n"
  shows "cell_node (parse_doc is_parse_flags) c =
           Inr (XElem ''c'' (cell_attrs c) (f_nodes c @ v_nodes c @ [XCdata t]))"
proof -
  have "node_ok False is_parse_flags (XCdata t)"
    using assms(3,4) by (simp add: conv_cdata_id is_parse_flags_def)
  then have "parse_doc is_parse_flags (print_doc False [XCdata t, n]) = Some [XCdata t, n]"
    using assms(5,6) by (intro parse_doc_print_doc) simp_all
  moreover have "c_is c = print_doc False [XCdata t, n]"
    using assms(2,3) by (simp add: print_doc_def cdata_body_id)
  moreover have "c_is c \<noteq> rnastring" using assms(2) by (simp add: rnastring_def)
  ultimately show ?thesis using assms(1) by (simp add: cell_node_def)
qed

text \<open>C32: A stored inline string that starts with an XML declaration (or any processing instruction) is accepted, the declaration is skipped, and the cell copies the element that follows it.\<close>

theorem cell_inline_string_declaration:
  assumes "c_c_t c = ''inlineStr''" and "c_is c = ''<?xml'' @ b @ ''?>'' @ print_node False n"
    and "b = [] \<or> \<not> is_symbol (hd b)" and "scan_for ''?>'' b = None"
    and "is_element n" and "node_ok False is_parse_flags n"
  shows "cell_node (parse_doc is_parse_flags) c =
           Inr (XElem ''c'' (cell_attrs c) (f_nodes c @ v_nodes c @ [n]))"
proof -
  have x: "name_ok ''xml''" by (simp add: name_ok_def is_symbol_def is_start_symbol_def)
  have "parse_tree is_parse_flags ([], []) (c_is c) = parse_tree is_parse_flags ([], []) (print_node False n @ [])"
    using parse_tree_pi [OF x assms(3,4), of is_parse_flags "([], [])" "print_node False n"] assms(2) by simp
  also have "\<dots> = parse_tree is_parse_flags ([], [n]) []"
    using parse_tree_print_doc [of "[n]" False is_parse_flags "[]" "[]"] assms(5,6) by simp
  moreover have "skip_bom (c_is c) = c_is c" using assms(2) by (simp add: skip_bom_def)
  ultimately have "parse_doc is_parse_flags (c_is c) = Some [n]"
    using assms(5) by (simp add: parse_doc_def parse_tree.simps [of _ _ "[]"])
  moreover have "c_is c \<noteq> rnastring" using assms(2) by (simp add: rnastring_def)
  ultimately show ?thesis using assms(1) by (simp add: cell_node_def)
qed

text \<open>C36: A stored inline string that starts with a document type declaration is accepted (pugixml skips the declaration, as parse_doctype is not set), and the cell copies the element that follows it.\<close>

theorem cell_inline_string_doctype:
  assumes "c_c_t c = ''inlineStr''" and "c_is c = ''<!DOCTYPE'' @ t @ ''>'' @ print_node False n"
    and "list_all (\<lambda>x. x \<notin> {CHR ''<'', CHR ''>'', CHR 0x22, CHR 0x27}) t"
    and "is_element n" and "node_ok False is_parse_flags n"
  shows "cell_node (parse_doc is_parse_flags) c =
           Inr (XElem ''c'' (cell_attrs c) (f_nodes c @ v_nodes c @ [n]))"
proof -
  have "parse_tree is_parse_flags ([], []) (c_is c) = parse_tree is_parse_flags ([], []) (print_node False n @ [])"
    using parse_tree_doctype [OF assms(3), of is_parse_flags "[]" "print_node False n"] assms(2) by simp
  also have "\<dots> = parse_tree is_parse_flags ([], [n]) []"
    using parse_tree_print_doc [of "[n]" False is_parse_flags "[]" "[]"] assms(4,5) by simp
  moreover have "skip_bom (c_is c) = c_is c" using assms(2) by (simp add: skip_bom_def)
  ultimately have "parse_doc is_parse_flags (c_is c) = Some [n]"
    using assms(4) by (simp add: parse_doc_def parse_tree.simps [of _ _ "[]"])
  moreover have "c_is c \<noteq> rnastring" using assms(2) by (simp add: rnastring_def)
  ultimately show ?thesis using assms(1) by (simp add: cell_node_def)
qed

section \<open>Witnesses\<close>

text \<open>Each theorem with a hypothesis, applied at a concrete input where its hypotheses hold.\<close>

theorem read_write_xf_roundtrip_witness:
  "df_wf ex_xf_frame \<and> df_names ex_xf_frame = nams \<and>
   read_xf (map (write_xf_node ex_xf_frame) [0..<df_nrow ex_xf_frame]) = ([], Inr ex_xf_frame)"
proof -
  have h1: "df_wf ex_xf_frame" by (simp add: df_wf_def ex_xf_frame_def nams_def)
  have h2: "df_names ex_xf_frame = nams" by (simp add: ex_xf_frame_def)
  show ?thesis using h1 h2 read_write_xf_roundtrip [OF h1 h2] by simp
qed

theorem xml_sheet_data_refines_witness:
  "xml_sheet_data (\<lambda>_. None) ex_row_attr ex_cc =
     Inr (print_doc False (map row_node
       [([(''r'', ''1'')], [ex_node_a1]), ([(''r'', ''2''), (''ht'', ''15'')], []), ([(''r'', ''3'')], []),
        ([(''r'', ''4'')], [ex_node_b4])]))"
proof -
  have "xml_sheet_data (\<lambda>_. None) ex_row_attr ex_cc =
          Inr (print_doc False (map row_node (rows (sheet_abs ex_row_attr [1, 2, 3, 4] (zip [1, 4] [ex_node_a1, ex_node_b4])))))"
    by (rule xml_sheet_data_refines [where cs = "df_cols ex_cc" and row_r = ex_row_r])
       (simp_all add: ex_cc_def ex_row_attr_def ex_row_r_def cc_names_def df_col_def mk_cell_def to_string_def ex_eval_simps
          ex_node_a1_def ex_node_b4_def sheet_input_ok_def upt_rec)
  moreover have "rows (sheet_abs ex_row_attr [1, 2, 3, 4] (zip [1, 4] [ex_node_a1, ex_node_b4])) =
     [([(''r'', ''1'')], [ex_node_a1]), ([(''r'', ''2''), (''ht'', ''15'')], []), ([(''r'', ''3'')], []),
      ([(''r'', ''4'')], [ex_node_b4])]"
    by (simp add: sheet_abs_def rows_upto_def abs_row_def row_attrs_def ex_row_attr_def upt_rec)
  ultimately show ?thesis by simp
qed

theorem read_xf_rows_decoded_witness:
  "list_all is_xf ex_xf_doc \<and>
   (\<exists>d. read_xf ex_xf_doc = (concat (map elem_warnings ex_xf_doc), Inr d) \<and> df_wf d \<and> df_names d = nams \<and>
        df_nrow d = length ex_xf_doc \<and> (\<forall>i < length ex_xf_doc. get_row (df_cols d) i = decode_xf (ex_xf_doc ! i)))"
proof -
  have h: "list_all is_xf ex_xf_doc" by (simp add: ex_xf_doc_def is_xf_def)
  show ?thesis using h read_xf_rows_decoded [OF h] by simp
qed

theorem emit_rows_post_witness:
  "3 \<le> rowid ex_emit_state \<and> row_idx init_state \<le> row_idx ex_emit_state \<and>
   lastrow ex_emit_state = lastrow init_state \<and>
   rows ex_emit_state = rows init_state @ map (\<lambda>k. (row_attrs ex_row_attr k, [])) [row_idx init_state..<row_idx ex_emit_state]"
proof -
  have h: "emit_rows ex_row_attr ex_row_r 3 init_state = Inr ex_emit_state"
    by (simp add: emit_rows.simps ex_row_attr_def ex_row_r_def init_state_def row_attrs_def ex_emit_state_def ex_eval_simps)
  show ?thesis by (rule emit_rows_post [OF h])
qed

theorem sheet_loop_invariant_witness:
  "sheet_inv ex_row_r init_state \<and>
   sheet_loop (cell_node (\<lambda>_. None)) ex_row_attr ex_row_r [ex_cell] init_state = Inr ex_loop_state \<and>
   sheet_inv ex_row_r ex_loop_state"
proof -
  have h1: "sheet_inv ex_row_r init_state"
    by (simp add: sheet_inv_def init_state_def int_min_def int_max_def)
  have h2: "sheet_loop (cell_node (\<lambda>_. None)) ex_row_attr ex_row_r [ex_cell] init_state = Inr ex_loop_state"
    by (simp add: sheet_step_def emit_rows.simps ex_row_attr_def ex_row_r_def init_state_def row_attrs_def
          ex_loop_state_def ex_cell_def append_cell_def ex_eval_simps)
  show ?thesis using h1 h2 sheet_loop_invariant [OF h1 h2] by simp
qed

theorem cell_empty_value_preserved_witness:
  "cell_node (\<lambda>_. None) ex_cell =
     Inr (XElem ''c'' (cell_attrs ex_cell) [XElem ''v'' [(''xml:space'', ''preserve'')] [XPcdata '' '']])"
proof -
  have h: "c_v ex_cell = []" "c_f ex_cell = rnastring" "c_f_t ex_cell = rnastring" "c_f_si ex_cell = rnastring"
    "c_c_t ex_cell \<noteq> ''inlineStr''"
    by (simp_all add: ex_cell_def rnastring_def)
  show ?thesis using cell_empty_value_preserved [OF h] by simp
qed

theorem cell_absent_value_witness:
  "\<exists>n. cell_node (\<lambda>_. None) (ex_cell\<lparr>c_v := rnastring, c_f := ''1+1''\<rparr>) = Inr n \<and>
       node_children n = [XElem ''f'' [] [XPcdata ''1+1'']] \<and> ''v'' \<notin> set (map node_name (node_children n))"
proof -
  let ?c = "ex_cell\<lparr>c_v := rnastring, c_f := ''1+1''\<rparr>"
  have h1: "c_v ?c = rnastring" "c_c_t ?c \<noteq> ''inlineStr''" by (simp_all add: ex_cell_def rnastring_def)
  have h2: "cell_node (\<lambda>_. None) ?c = Inr (XElem ''c'' [(''r'', ''A1'')] [XElem ''f'' [] [XPcdata ''1+1'']])"
    by (simp add: ex_cell_def ex_eval_simps)
  show ?thesis using h2 cell_absent_value [OF h1 h2] by simp
qed

theorem cell_inline_string_copied_witness:
  "cell_node ex_is_parser (ex_cell\<lparr>c_c_t := ''inlineStr'', c_is := ''<is><t>hello</t></is>'', c_v := rnastring\<rparr>) =
     Inr (XElem ''c'' [(''r'', ''A1''), (''t'', ''inlineStr'')] [XElem ''is'' [] [XElem ''t'' [] [XPcdata ''hello'']]])"
proof -
  let ?c = "ex_cell\<lparr>c_c_t := ''inlineStr'', c_is := ''<is><t>hello</t></is>'', c_v := rnastring\<rparr>"
  have h: "c_c_t ?c = ''inlineStr''" "c_is ?c \<noteq> rnastring"
      "ex_is_parser (c_is ?c) = Some [XElem ''is'' [] [XElem ''t'' [] [XPcdata ''hello'']]]"
    by (simp_all add: ex_cell_def rnastring_def ex_is_parser_def)
  show ?thesis
    using cell_inline_string_copied [where p = ex_is_parser, OF h] by (simp add: ex_cell_def ex_eval_simps)
qed

theorem read_xf_not_xf_witness:
  "snd (read_xf [XElem ''xf'' [] [], XElem ''font'' [] []]) = Inl StopNotXf"
  by (rule read_xf_not_xf) (simp add: is_xf_def)

theorem cell_inline_string_malformed_witness:
  "cell_node (\<lambda>_. None) (ex_cell\<lparr>c_c_t := ''inlineStr'', c_is := ''<is><t>''\<rparr>) = Inl StopInlineStr"
  by (rule cell_inline_string_malformed) (simp_all add: ex_cell_def rnastring_def)

theorem emit_rows_exhausted_witness:
  "emit_rows ex_row_attr ex_row_r 5 init_state = Inl RowAttrExhausted"
  by (rule emit_rows_exhausted [OF ex_row_r_ids]) (simp_all add: init_state_def)

theorem read_xf_unknown_attr_witness:
  "read_xf [XElem ''xf'' [(''bogus'', ''1''), (''fontId'', ''3'')] []] =
     (WarnUnknownAttr ''bogus'' # fst (read_xf [XElem ''xf'' [(''fontId'', ''3'')] []]),
      snd (read_xf [XElem ''xf'' [(''fontId'', ''3'')] []]))"
  by (rule read_xf_unknown_attr) (simp add: nams_def)

theorem read_xf_cell_value_witness:
  "df_cols (projr (snd (read_xf ex_xf_doc))) ! 8 ! 0 = ''2''"
proof -
  let ?d = "\<lparr>df_names = nams, df_cols = cols_of (length nams) (map decode_xf ex_xf_doc), df_nrow = 1\<rparr>"
  have h1: "read_xf ex_xf_doc = (concat (map elem_warnings ex_xf_doc), Inr ?d)"
    by (simp add: read_xf_refines ex_xf_doc_def is_xf_def)
  have h2: "0 < length ex_xf_doc" "8 < length nams" by (simp_all add: ex_xf_doc_def nams_def)
  have "df_cols ?d ! 8 ! 0 = (case map_of (rev (xf_attr_seq (ex_xf_doc ! 0))) (nams ! 8) of None \<Rightarrow> [] | Some v \<Rightarrow> v)"
    by (rule read_xf_cell_value [OF h1 h2])
  then show ?thesis
    using h1 by (simp add: ex_xf_doc_def xf_attr_seq_def known_child_def nams_def)
qed

theorem has_it_scan_witness:
  "has_it ex_xf_frame xf_nams_alignment 0"
proof -
  have "(\<exists>(n, col) \<in> set (zip (df_names ex_xf_frame) (df_cols ex_xf_frame)).
           n \<in> set xf_nams_alignment \<and> col ! 0 \<noteq> [])"
    by (simp add: ex_xf_frame_def nams_def xf_nams_alignment_def)
  then show ?thesis using has_it_scan by blast
qed

theorem write_worksheet_empty_sheet_witness:
  "write_worksheet (\<lambda>_. None) ''<worksheet>'' ''</worksheet>'' (ex_row_attr\<lparr>df_cols := [[], []], df_nrow := 0\<rparr>) ex_cc ''sheet1.xml'' Map.empty =
     (Map.empty(''sheet1.xml'' \<mapsto> xml_decl @ ''<worksheet>'' @ ''<sheetData />'' @ ''</worksheet>''), Inr ())"
  by (rule write_worksheet_empty_sheet) simp

theorem write_worksheet_error_truncates_witness:
  "write_worksheet (\<lambda>_. None) ''<worksheet>'' ''</worksheet>'' ex_row_attr ex_cc_beyond ''sheet1.xml'' Map.empty =
     (Map.empty(''sheet1.xml'' \<mapsto> xml_decl @ ''<worksheet>'' @ ''<sheetData>''), Inl RowAttrExhausted)"
proof -
  have h: "df_nrow ex_row_attr \<noteq> 0" "df_nrow ex_cc_beyond \<noteq> 0"
    by (simp_all add: ex_row_attr_def ex_cc_beyond_def ex_cc_def)
  have e: "xml_sheet_data (\<lambda>_. None) ex_row_attr ex_cc_beyond = Inl RowAttrExhausted"
    by (simp add: xml_sheet_data_def ex_cc_beyond_def ex_cc_def cc_names_def df_col_def ex_row_attr_def
          mk_cell_def to_string_def sheet_step_def emit_rows.simps init_state_def row_attrs_def append_cell_def upt_rec
          ex_eval_simps)
  show ?thesis by (rule write_worksheet_error_truncates [OF h e])
qed

theorem write_xf_writes_sentinel_witness:
  "(''applyFont'', rnastring) \<in> set (node_attrs (write_xf_node ex_xf_frame 0))"
proof -
  have h: "(''applyFont'', [rnastring]) \<in> set (zip (df_names ex_xf_frame) (df_cols ex_xf_frame))"
    "''applyFont'' \<in> set xf_nams" "[rnastring] ! 0 = rnastring"
    by (simp_all add: ex_xf_frame_def nams_def xf_nams_def)
  show ?thesis by (rule write_xf_writes_sentinel [OF h])
qed

theorem cell_formula_text_sentinel_witness:
  "hd (node_children (projr (cell_node (\<lambda>_. None) (ex_cell\<lparr>c_f_t := ''shared'', c_f_si := ''0''\<rparr>)))) =
     XElem ''f'' [(''t'', ''shared''), (''si'', ''0'')] [XPcdata rnastring]"
proof -
  let ?c = "ex_cell\<lparr>c_f_t := ''shared'', c_f_si := ''0''\<rparr>"
  let ?n = "projr (cell_node (\<lambda>_. None) ?c)"
  have h: "c_f ?c = rnastring" "c_f_t ?c \<noteq> rnastring" "cell_node (\<lambda>_. None) ?c = Inr ?n"
    by (simp_all add: ex_cell_def ex_eval_simps)
  obtain as where "hd (node_children ?n) = XElem ''f'' as [XPcdata rnastring]"
    using cell_formula_text_sentinel [OF h] by blast
  then show ?thesis by (simp add: ex_cell_def ex_eval_simps)
qed

theorem sheet_step_null_row_witness:
  "sheet_step (cell_node (\<lambda>_. None)) ex_row_attr ex_row_r (ex_cell\<lparr>c_row_r := ''0''\<rparr>) init_state =
     Inr (init_state\<lparr>lastrow := 0\<rparr>)"
proof -
  have h: "stoi (c_row_r (ex_cell\<lparr>c_row_r := ''0''\<rparr>)) = Inr 0" "(0::int) \<le> 0"
    "cell_node (\<lambda>_. None) (ex_cell\<lparr>c_row_r := ''0''\<rparr>) = Inr ex_node_a1"
    by (simp_all add: ex_cell_def ex_node_a1_def ex_eval_simps)
  show ?thesis by (rule sheet_step_null_row [where emit = "cell_node (\<lambda>_. None)", OF h])
qed

theorem write_xf_parse_witness:
  "df_names ex_xf_frame = nams \<and> 0 < df_nrow ex_xf_frame \<and>
   parse_doc parse_default (write_xf ex_xf_frame ! 0) = Some [write_xf_node ex_xf_frame 0]"
proof -
  have h: "df_names ex_xf_frame = nams" "0 < df_nrow ex_xf_frame" by (simp_all add: ex_xf_frame_def)
  show ?thesis using h write_xf_parse [OF h] by simp
qed

theorem set_sst_parse_witness:
  "parse_doc parse_default (set_sst [''a<b & c''] ! 0) = Some [XElem ''si'' [] [XElem ''t'' [] [XPcdata ''a<b & c'']]]"
proof -
  have h: "0 < length [''a<b & c'']" "CHR 0x0D \<notin> set ([''a<b & c''] ! 0)" "\<not> list_all is_space ([''a<b & c''] ! 0)"
    by (simp_all add: is_space_def)
  show ?thesis using set_sst_parse [OF h] by simp
qed

theorem set_sst_blank_lost_witness:
  "parse_doc parse_default (set_sst ['' '', ''a<b''] ! 0) = Some [XElem ''si'' [] [XElem ''t'' [] []]] \<and>
   parse_doc parse_default (set_sst ['' '', ''a<b''] ! 1) = Some [XElem ''si'' [] [XElem ''t'' [] [XPcdata ''a<b'']]]"
proof -
  have h0: "0 < length ['' '', ''a<b'']" "CHR 0x0D \<notin> set (['' '', ''a<b''] ! 0)" by simp_all
  have h1: "1 < length ['' '', ''a<b'']" "CHR 0x0D \<notin> set (['' '', ''a<b''] ! 1)" by simp_all
  show ?thesis
    using set_sst_blank_lost [OF h0] set_sst_blank_lost [OF h1] by (simp add: is_space_def)
qed

theorem xml_sheet_data_unescaped_witness:
  "\<exists>out. xml_sheet_data (\<lambda>_. None) ex_ra_one (ex_cc_val ''A1'' ''1<2'') = Inr out \<and>
         parse_doc parse_default (''<sheetData>'' @ out @ ''</sheetData>'') = None"
proof -
  have h: "''1<2'' \<noteq> []" "''1<2'' \<noteq> rnastring" by (simp_all add: rnastring_def)
  show ?thesis
    using xml_sheet_data_unescaped [OF h]
    by (simp add: parse_doc_def parse_tree.simps start_tag_def parse_attrs.simps parse_attr_def end_tag_def
          add_node_def is_space_def is_symbol_def is_start_symbol_def is_digit_def Let_def)
qed

theorem sheet_step_cell_in_next_row_witness:
  "sheet_step (cell_node (\<lambda>_. None)) ex_ra_gap [''1'', ''2'', ''4''] (ex_cell\<lparr>c_row_r := ''3'', c_r := ''C3'', c_v := ''5''\<rparr>)
     init_state =
   Inr \<lparr>lastrow = 3, row_idx = 3, rowid = 4,
        rows = [([(''r'', ''1'')], []), ([(''r'', ''2'')], []),
                ([(''r'', ''4'')], [XElem ''c'' [(''r'', ''C3'')] [XElem ''v'' [] [XPcdata ''5'']]])]\<rparr>"
proof -
  let ?c = "ex_cell\<lparr>c_row_r := ''3'', c_r := ''C3'', c_v := ''5''\<rparr>"
  have h: "stoi (c_row_r ?c) = Inr 3" "lastrow init_state < 3" "rowid init_state < 3" "row_idx init_state \<le> 2"
    "2 < length [''1'', ''2'', ''4'']"
    "list_all (\<lambda>k. \<exists>x. stoi ([''1'', ''2'', ''4''] ! k) = Inr x \<and> x < 3) [row_idx init_state..<2]"
    "stoi ([''1'', ''2'', ''4''] ! 2) = Inr 4" "(3::int) \<le> 4"
    "cell_node (\<lambda>_. None) ?c = Inr (XElem ''c'' [(''r'', ''C3'')] [XElem ''v'' [] [XPcdata ''5'']])"
    by (simp_all add: init_state_def ex_cell_def ex_eval_simps upt_rec)
  show ?thesis
    using sheet_step_cell_in_next_row [where emit = "cell_node (\<lambda>_. None)", OF h] by (simp add: init_state_def row_attrs_def ex_ra_gap_def upt_rec)
qed

theorem cell_inline_string_verbatim_witness:
  "cell_node (parse_doc is_parse_flags) (ex_cell\<lparr>c_c_t := ''inlineStr'', c_is := ''<is><t>hello</t></is>''\<rparr>) =
     Inr (XElem ''c'' [(''r'', ''A1''), (''t'', ''inlineStr'')]
       [XElem ''v'' [(''xml:space'', ''preserve'')] [XPcdata '' ''], XElem ''is'' [] [XElem ''t'' [] [XPcdata ''hello'']]])"
proof -
  let ?c = "ex_cell\<lparr>c_c_t := ''inlineStr'', c_is := ''<is><t>hello</t></is>''\<rparr>"
  let ?n = "XElem ''is'' [] [XElem ''t'' [] [XPcdata ''hello'']]"
  have h: "c_c_t ?c = ''inlineStr''" "c_is ?c = print_node False ?n" "is_element ?n"
    "node_ok False is_parse_flags ?n"
    by (simp_all add: text_out_def text_ok_def is_space_def is_parse_flags_def)
  show ?thesis
    using conjunct1 [OF cell_inline_string_verbatim [OF h]]
    by (simp add: ex_cell_def ex_eval_simps)
qed

theorem cell_inline_string_blank_lost_witness:
  "cell_node (parse_doc is_parse_flags) (ex_cell\<lparr>c_c_t := ''inlineStr'', c_is := ''<is><t> </t></is>''\<rparr>) =
     Inr (XElem ''c'' [(''r'', ''A1''), (''t'', ''inlineStr'')]
       [XElem ''v'' [(''xml:space'', ''preserve'')] [XPcdata '' ''], XElem ''is'' [] [XElem ''t'' [] []]])"
proof -
  let ?c = "ex_cell\<lparr>c_c_t := ''inlineStr'', c_is := ''<is><t> </t></is>''\<rparr>"
  have h: "c_c_t ?c = ''inlineStr''" "c_is ?c = ''<is><t>'' @ '' '' @ ''</t></is>''" "'' '' \<noteq> []"
    "list_all is_space '' ''"
    by (simp_all add: is_space_def)
  show ?thesis
    using cell_inline_string_blank_lost [OF h] by (simp add: ex_cell_def ex_eval_simps)
qed

theorem row_attrs_sentinel_witness:
  "(''ht'', rnastring) \<in> set (row_attrs \<lparr>df_names = [''r'', ''ht''], df_cols = [[''1''], [rnastring]], df_nrow = 1\<rparr> 0)"
  using row_attrs_sentinel [of "''ht''" "\<lparr>df_names = [''r'', ''ht''], df_cols = [[''1''], [rnastring]], df_nrow = 1\<rparr>" 0]
  by simp

theorem sheet_step_row_out_of_range_witness:
  "\<not> (int_min \<le> 2147483648 \<and> (2147483648::int) \<le> int_max) \<and>
   sheet_step (cell_node (\<lambda>_. None)) ex_row_attr ex_row_r (ex_cell\<lparr>c_row_r := int_to_dec 2147483648\<rparr>) init_state =
     Inl OutOfRange"
proof -
  have h: "\<not> (int_min \<le> 2147483648 \<and> (2147483648::int) \<le> int_max)" by (simp add: int_min_def int_max_def)
  show ?thesis using h sheet_step_row_out_of_range [OF h] by simp
qed

theorem cell_inline_string_element_witness:
  "c_c_t (ex_cell\<lparr>c_c_t := ''inlineStr'', c_is := ''<is><t>hello</t></is>''\<rparr>) = ''inlineStr'' \<and>
   c_is (ex_cell\<lparr>c_c_t := ''inlineStr'', c_is := ''<is><t>hello</t></is>''\<rparr>) \<noteq> rnastring \<and>
   cell_node (parse_doc is_parse_flags) (ex_cell\<lparr>c_c_t := ''inlineStr'', c_is := ''<is><t>hello</t></is>''\<rparr>) =
     Inr (XElem ''c'' [(''r'', ''A1''), (''t'', ''inlineStr'')]
       [XElem ''v'' [(''xml:space'', ''preserve'')] [XPcdata '' ''], XElem ''is'' [] [XElem ''t'' [] [XPcdata ''hello'']]]) \<and>
   (\<exists>n. \<not> is_text n \<and>
     XElem ''c'' [(''r'', ''A1''), (''t'', ''inlineStr'')]
       [XElem ''v'' [(''xml:space'', ''preserve'')] [XPcdata '' ''], XElem ''is'' [] [XElem ''t'' [] [XPcdata ''hello'']]] =
     XElem ''c'' (cell_attrs (ex_cell\<lparr>c_c_t := ''inlineStr'', c_is := ''<is><t>hello</t></is>''\<rparr>))
       (f_nodes (ex_cell\<lparr>c_c_t := ''inlineStr'', c_is := ''<is><t>hello</t></is>''\<rparr>) @
        v_nodes (ex_cell\<lparr>c_c_t := ''inlineStr'', c_is := ''<is><t>hello</t></is>''\<rparr>) @ [n]))"
proof -
  let ?c = "ex_cell\<lparr>c_c_t := ''inlineStr'', c_is := ''<is><t>hello</t></is>''\<rparr>"
  let ?x = "XElem ''c'' [(''r'', ''A1''), (''t'', ''inlineStr'')]
         [XElem ''v'' [(''xml:space'', ''preserve'')] [XPcdata '' ''], XElem ''is'' [] [XElem ''t'' [] [XPcdata ''hello'']]]"
  have "parse_doc is_parse_flags ''<is><t>hello</t></is>'' = Some [XElem ''is'' [] [XElem ''t'' [] [XPcdata ''hello'']]]"
    using parse_doc_print_doc [of "[XElem ''is'' [] [XElem ''t'' [] [XPcdata ''hello'']]]" False is_parse_flags]
    by (simp add: print_doc_def text_out_def text_ok_def is_space_def is_parse_flags_def)
  then have h: "c_c_t ?c = ''inlineStr''" "c_is ?c \<noteq> rnastring" "cell_node (parse_doc is_parse_flags) ?c = Inr ?x"
    by (simp_all add: ex_cell_def ex_eval_simps cell_node_def)
  show ?thesis using h cell_inline_string_element [OF h] by blast
qed

theorem cell_inline_string_cdata_first_witness:
  "c_c_t (ex_cell\<lparr>c_c_t := ''inlineStr'', c_is := ''<![CDATA[x]]><is><t>y</t></is>''\<rparr>) = ''inlineStr'' \<and>
   c_is (ex_cell\<lparr>c_c_t := ''inlineStr'', c_is := ''<![CDATA[x]]><is><t>y</t></is>''\<rparr>) =
     ''<![CDATA['' @ ''x'' @ '']]>'' @ print_node False (XElem ''is'' [] [XElem ''t'' [] [XPcdata ''y'']]) \<and>
   scan_for '']]>'' ''x'' = None \<and> CHR 0x0D \<notin> set ''x'' \<and>
   is_element (XElem ''is'' [] [XElem ''t'' [] [XPcdata ''y'']]) \<and>
   node_ok False is_parse_flags (XElem ''is'' [] [XElem ''t'' [] [XPcdata ''y'']]) \<and>
   cell_node (parse_doc is_parse_flags) (ex_cell\<lparr>c_c_t := ''inlineStr'', c_is := ''<![CDATA[x]]><is><t>y</t></is>''\<rparr>) =
     Inr (XElem ''c'' [(''r'', ''A1''), (''t'', ''inlineStr'')]
       [XElem ''v'' [(''xml:space'', ''preserve'')] [XPcdata '' ''], XCdata ''x''])"
proof -
  let ?c = "ex_cell\<lparr>c_c_t := ''inlineStr'', c_is := ''<![CDATA[x]]><is><t>y</t></is>''\<rparr>"
  let ?n = "XElem ''is'' [] [XElem ''t'' [] [XPcdata ''y'']]"
  have h: "c_c_t ?c = ''inlineStr''" "c_is ?c = ''<![CDATA['' @ ''x'' @ '']]>'' @ print_node False ?n"
    "scan_for '']]>'' ''x'' = None" "CHR 0x0D \<notin> set ''x''" "is_element ?n"
    "node_ok False is_parse_flags ?n"
    by (simp_all add: ex_cell_def text_ok_def text_out_def is_space_def is_parse_flags_def)
  have "cell_node (parse_doc is_parse_flags) ?c = Inr (XElem ''c'' (cell_attrs ?c) (f_nodes ?c @ v_nodes ?c @ [XCdata ''x'']))"
    by (rule cell_inline_string_cdata_first [OF h])
  then show ?thesis using h by (simp add: ex_cell_def ex_eval_simps)
qed

theorem cell_inline_string_declaration_witness:
  "c_c_t (ex_cell\<lparr>c_c_t := ''inlineStr'', c_is := ''<?xml'' @ ex_decl_attrs @ ''?><is><t>y</t></is>''\<rparr>) = ''inlineStr'' \<and>
   c_is (ex_cell\<lparr>c_c_t := ''inlineStr'', c_is := ''<?xml'' @ ex_decl_attrs @ ''?><is><t>y</t></is>''\<rparr>) =
     ''<?xml'' @ ex_decl_attrs @ ''?>'' @ print_node False (XElem ''is'' [] [XElem ''t'' [] [XPcdata ''y'']]) \<and>
   (ex_decl_attrs = [] \<or> \<not> is_symbol (hd ex_decl_attrs)) \<and> scan_for ''?>'' ex_decl_attrs = None \<and>
   is_element (XElem ''is'' [] [XElem ''t'' [] [XPcdata ''y'']]) \<and>
   node_ok False is_parse_flags (XElem ''is'' [] [XElem ''t'' [] [XPcdata ''y'']]) \<and>
   cell_node (parse_doc is_parse_flags) (ex_cell\<lparr>c_c_t := ''inlineStr'', c_is := ''<?xml'' @ ex_decl_attrs @ ''?><is><t>y</t></is>''\<rparr>) =
     Inr (XElem ''c'' [(''r'', ''A1''), (''t'', ''inlineStr'')]
       [XElem ''v'' [(''xml:space'', ''preserve'')] [XPcdata '' ''], XElem ''is'' [] [XElem ''t'' [] [XPcdata ''y'']]])"
proof -
  let ?c = "ex_cell\<lparr>c_c_t := ''inlineStr'', c_is := ''<?xml'' @ ex_decl_attrs @ ''?><is><t>y</t></is>''\<rparr>"
  let ?n = "XElem ''is'' [] [XElem ''t'' [] [XPcdata ''y'']]"
  have h: "c_c_t ?c = ''inlineStr''" "c_is ?c = ''<?xml'' @ ex_decl_attrs @ ''?>'' @ print_node False ?n"
    "ex_decl_attrs = [] \<or> \<not> is_symbol (hd ex_decl_attrs)" "scan_for ''?>'' ex_decl_attrs = None"
    "is_element ?n" "node_ok False is_parse_flags ?n"
    by (simp_all add: ex_cell_def ex_decl_attrs_def text_ok_def text_out_def is_space_def is_parse_flags_def
      is_symbol_def is_start_symbol_def is_digit_def)
  have "cell_node (parse_doc is_parse_flags) ?c = Inr (XElem ''c'' (cell_attrs ?c) (f_nodes ?c @ v_nodes ?c @ [?n]))"
    by (rule cell_inline_string_declaration [OF h])
  then show ?thesis using h by (simp add: ex_cell_def ex_eval_simps)
qed

theorem emit_rows_reaches_witness:
  "\<exists>st'. emit_rows ex_row_attr ex_row_r 3 init_state = Inr st' \<and> row_idx st' \<le> Suc 2"
  by (rule emit_rows_reaches [OF ex_row_r_ids]) (simp_all add: init_state_def)

theorem write_xf_text_roundtrip_witness:
  "df_wf ex_xf_frame \<and> df_names ex_xf_frame = nams \<and> 0 < df_nrow ex_xf_frame \<and>
   (\<exists>doc. parse_doc parse_default (concat (write_xf ex_xf_frame)) = Some doc \<and> read_xf doc = ([], Inr ex_xf_frame))"
proof -
  have h: "df_wf ex_xf_frame" "df_names ex_xf_frame = nams" "0 < df_nrow ex_xf_frame"
    by (simp_all add: df_wf_def ex_xf_frame_def nams_def)
  show ?thesis using h write_xf_text_roundtrip [OF h] by blast
qed

theorem write_worksheet_sheet_data_reads_back_witness:
  "\<exists>body. write_worksheet (\<lambda>_. None) ''<worksheet>'' ''</worksheet>'' ex_row_attr ex_cc ''sheet1.xml'' Map.empty =
      (Map.empty(''sheet1.xml'' \<mapsto> xml_decl @ ''<worksheet>'' @ ''<sheetData>'' @ body @ ''</sheetData>'' @ ''</worksheet>''),
       Inr ()) \<and>
    parse_doc parse_default (''<sheetData>'' @ body @ ''</sheetData>'') =
      Some [XElem ''sheetData'' []
        [XElem ''row'' [(''r'', ''1'')] [XElem ''c'' [(''r'', ''A1'')] [XElem ''v'' [(''xml:space'', ''preserve'')] []]],
         XElem ''row'' [(''r'', ''2''), (''ht'', ''15'')] [], XElem ''row'' [(''r'', ''3'')] [],
         XElem ''row'' [(''r'', ''4'')] [ex_node_b4]]]"
proof -
  have "\<exists>body. write_worksheet (\<lambda>_. None) ''<worksheet>'' ''</worksheet>'' ex_row_attr ex_cc ''sheet1.xml'' Map.empty =
      (Map.empty(''sheet1.xml'' \<mapsto> xml_decl @ ''<worksheet>'' @ ''<sheetData>'' @ body @ ''</sheetData>'' @ ''</worksheet>''),
       Inr ()) \<and>
    parse_doc parse_default (''<sheetData>'' @ body @ ''</sheetData>'') =
      Some [XElem ''sheetData'' []
        (map (strip_blank \<circ> row_node) (rows (sheet_abs ex_row_attr [1, 2, 3, 4] (zip [1, 4] [ex_node_a1, ex_node_b4]))))]"
    by (rule write_worksheet_sheet_data_reads_back [where cs = "df_cols ex_cc" and row_r = ex_row_r])
       (simp_all add: ex_cc_def ex_row_attr_def ex_row_r_def cc_names_def df_col_def mk_cell_def to_string_def ex_eval_simps
          ex_node_a1_def ex_node_b4_def sheet_input_ok_def upt_rec df_wf_def row_attr_plain_def cell_plain_def
          plain_attr_value_def plain_text_def less_Suc_eq numeral_2_eq_2 name_ok_def is_symbol_def is_start_symbol_def)
  moreover have "rows (sheet_abs ex_row_attr [1, 2, 3, 4] (zip [1, 4] [ex_node_a1, ex_node_b4])) =
     [([(''r'', ''1'')], [ex_node_a1]), ([(''r'', ''2''), (''ht'', ''15'')], []), ([(''r'', ''3'')], []),
      ([(''r'', ''4'')], [ex_node_b4])]"
    by (simp add: sheet_abs_def rows_upto_def abs_row_def row_attrs_def ex_row_attr_def upt_rec)
  ultimately show ?thesis by (simp add: row_node_def ex_node_a1_def ex_node_b4_def is_space_def)
qed

theorem cell_inline_string_doctype_witness:
  "c_c_t (ex_cell\<lparr>c_c_t := ''inlineStr'', c_is := ''<!DOCTYPE is><is><t>y</t></is>''\<rparr>) = ''inlineStr'' \<and>
   c_is (ex_cell\<lparr>c_c_t := ''inlineStr'', c_is := ''<!DOCTYPE is><is><t>y</t></is>''\<rparr>) =
     ''<!DOCTYPE'' @ '' is'' @ ''>'' @ print_node False (XElem ''is'' [] [XElem ''t'' [] [XPcdata ''y'']]) \<and>
   list_all (\<lambda>x. x \<notin> {CHR ''<'', CHR ''>'', CHR 0x22, CHR 0x27}) '' is'' \<and>
   is_element (XElem ''is'' [] [XElem ''t'' [] [XPcdata ''y'']]) \<and>
   node_ok False is_parse_flags (XElem ''is'' [] [XElem ''t'' [] [XPcdata ''y'']]) \<and>
   cell_node (parse_doc is_parse_flags) (ex_cell\<lparr>c_c_t := ''inlineStr'', c_is := ''<!DOCTYPE is><is><t>y</t></is>''\<rparr>) =
     Inr (XElem ''c'' [(''r'', ''A1''), (''t'', ''inlineStr'')]
       [XElem ''v'' [(''xml:space'', ''preserve'')] [XPcdata '' ''], XElem ''is'' [] [XElem ''t'' [] [XPcdata ''y'']]])"
proof -
  let ?c = "ex_cell\<lparr>c_c_t := ''inlineStr'', c_is := ''<!DOCTYPE is><is><t>y</t></is>''\<rparr>"
  let ?n = "XElem ''is'' [] [XElem ''t'' [] [XPcdata ''y'']]"
  have h: "c_c_t ?c = ''inlineStr''" "c_is ?c = ''<!DOCTYPE'' @ '' is'' @ ''>'' @ print_node False ?n"
    "list_all (\<lambda>x. x \<notin> {CHR ''<'', CHR ''>'', CHR 0x22, CHR 0x27}) '' is''"
    "is_element ?n" "node_ok False is_parse_flags ?n"
    by (simp_all add: ex_cell_def text_ok_def text_out_def is_space_def is_parse_flags_def)
  have "cell_node (parse_doc is_parse_flags) ?c = Inr (XElem ''c'' (cell_attrs ?c) (f_nodes ?c @ v_nodes ?c @ [?n]))"
    by (rule cell_inline_string_doctype [OF h])
  then show ?thesis using h by (simp add: ex_cell_def ex_eval_simps)
qed

theorem sheet_loop_unsorted_cell_witness:
  "sheet_loop (\<lambda>c. Inr (XElem ''c'' [(''r'', c_r c)] [])) ex_ra_gap [''1'', ''2'', ''4'']
     [ex_cell\<lparr>c_row_r := ''2'', c_r := ''B2''\<rparr>, ex_cell] init_state =
   Inr \<lparr>lastrow = 1, row_idx = 2, rowid = 2,
        rows = [([(''r'', ''1'')], []),
                ([(''r'', ''2'')], [XElem ''c'' [(''r'', ''B2'')] [], XElem ''c'' [(''r'', ''A1'')] []])]\<rparr>"
proof -
  let ?e = "\<lambda>c. Inr (XElem ''c'' [(''r'', c_r c)] []) :: error + xnode"
  let ?st1 = "\<lparr>lastrow = 2, row_idx = 2, rowid = 2,
        rows = [([(''r'', ''1'')], []), ([(''r'', ''2'')], [XElem ''c'' [(''r'', ''B2'')] []])]\<rparr>"
  have h1: "sheet_loop ?e ex_ra_gap [''1'', ''2'', ''4''] [ex_cell\<lparr>c_row_r := ''2'', c_r := ''B2''\<rparr>] init_state = Inr ?st1"
    by (simp add: sheet_step_def emit_rows.simps init_state_def row_attrs_def append_cell_def ex_ra_gap_def
          ex_cell_def ex_eval_simps)
  have h2: "rows ?st1 \<noteq> []" "stoi (c_row_r ex_cell) = Inr 1" "1 \<le> lastrow ?st1"
    "?e ex_cell = Inr (XElem ''c'' [(''r'', ''A1'')] [])"
    by (simp_all add: ex_cell_def ex_eval_simps)
  show ?thesis
    using sheet_loop_unsorted_cell [OF h1 h2] by simp
qed

theorem xml_sheet_data_missing_column_witness:
  "df_wf \<lparr>df_names = [''row_r''], df_cols = [[''1'']], df_nrow = 1\<rparr> \<and>
   filter (\<lambda>m. m \<notin> set (df_names \<lparr>df_names = [''row_r''], df_cols = [[''1'']], df_nrow = 1\<rparr>)) cc_names =
     ''r'' # [''v'', ''c_t'', ''c_s'', ''f'', ''f_t'', ''f_ref'', ''f_ca'', ''f_si'', ''is''] \<and>
   xml_sheet_data (\<lambda>_. None) ex_ra_one \<lparr>df_names = [''row_r''], df_cols = [[''1'']], df_nrow = 1\<rparr> =
     Inl (IndexOutOfBounds ''r'')"
proof -
  have h: "df_wf \<lparr>df_names = [''row_r''], df_cols = [[''1'']], df_nrow = 1\<rparr>"
    "filter (\<lambda>m. m \<notin> set (df_names \<lparr>df_names = [''row_r''], df_cols = [[''1'']], df_nrow = 1\<rparr>)) cc_names =
       ''r'' # [''v'', ''c_t'', ''c_s'', ''f'', ''f_t'', ''f_ref'', ''f_ca'', ''f_si'', ''is'']"
    by (simp_all add: df_wf_def cc_names_def)
  show ?thesis using h xml_sheet_data_missing_column [OF h] by simp
qed

end
